theory Spec2Isabelle
  imports Complex_Main "HOL-Library.Sublist"
begin

section \<open>Question-skill links of core/storage/question/gae_models.py\<close>

text \<open>
  The development embeds the class \<open>QuestionSkillLinkModel\<close>: the id of a link,
  \<open>create\<close>, and the two selectors that fetch a constant number of links per skill.

  Conventions of the embedding.
  \<^item> A model instance is a record; Python's \<open>==\<close> on two instances (key and all
    properties equal) is HOL equality of records.
  \<^item> The datastore is the list of stored link entities in the datastore's own (key)
    order. An ndb query is a value of type \<open>query\<close>; \<open>fetch\<close> interprets it.
  \<^item> \<open>skill_difficulty\<close> is a Python float, a double: the record holds its value as a
    real number. Comparisons of doubles are exact; the subtraction in the key of the sort
    rounds its result to a double (\<open>round_to_double\<close>).
  \<^item> \<open>total_question_count\<close> is a natural number: callers pass a non-negative count.
  \<^item> Every selector returns its result together with the log of the store reads
    it performed, in order; an exception is the \<open>Inl\<close> branch of the result.
  \<^item> A Python dict is an association list in insertion order (the order in which
    \<open>dict.values()\<close> enumerates since Python 3.7).
\<close>

subsection \<open>Data model\<close>

record question_skill_link =
  model_id :: string
  question_id :: string
  skill_id :: string
  skill_difficulty :: real

type_synonym datastore = "question_skill_link list"

datatype error =
  InvalidArgument      \<comment> \<open>\<open>Exception('Please keep the number of skill IDs below 20.')\<close>\<close>
  | ZeroDivisionError  \<comment> \<open>raised by the division that computes the quota\<close>
  | AlreadyLinked      \<comment> \<open>\<open>Exception('The given question is already linked to given skill')\<close>\<close>

subsection \<open>The store\<close>

datatype difficulty_filter =
  AnyDifficulty | EqualTo real | LessThan real | GreaterThan real

datatype difficulty_order = Unordered | Descending | Ascending

text \<open>
  \<open>Query s f ord\<close> is \<open>cls.query(cls.skill_id == s)\<close>, filtered by \<open>f\<close> on
  \<open>skill_difficulty\<close> and ordered by \<open>ord\<close> (\<open>Descending\<close> is
  \<open>.order(-cls.skill_difficulty)\<close>, \<open>Ascending\<close> is \<open>.order(cls.skill_difficulty)\<close>).
\<close>

datatype query = Query string difficulty_filter difficulty_order

type_synonym store_read = "query \<times> nat"

fun matches :: "difficulty_filter \<Rightarrow> real \<Rightarrow> bool" where
  "matches AnyDifficulty x = True"
| "matches (EqualTo d) x = (x = d)"
| "matches (LessThan d) x = (x < d)"
| "matches (GreaterThan d) x = (x > d)"

fun order_results :: "difficulty_order \<Rightarrow> question_skill_link list \<Rightarrow> question_skill_link list" where
  "order_results Unordered xs = xs"
| "order_results Descending xs = sort_key (\<lambda>m. - skill_difficulty m) xs"
| "order_results Ascending xs = sort_key skill_difficulty xs"

fun fetch :: "datastore \<Rightarrow> query \<Rightarrow> nat \<Rightarrow> question_skill_link list" where
  "fetch db (Query s f ord) limit =
     take limit (order_results ord
       (filter (\<lambda>m. skill_id m = s \<and> matches f (skill_difficulty m)) db))"

text \<open>
  Modelled from the spec: \<open>BaseModel.get(id, strict=False)\<close> is not part of the
  source file; it is the lookup of a record by its id, \<open>None\<close> when the store
  holds no record with that id.
\<close>

definition get :: "datastore \<Rightarrow> string \<Rightarrow> question_skill_link option" where
  "get db entity_id = find (\<lambda>m. model_id m = entity_id) db"

subsection \<open>Model id and create\<close>

definition get_model_id :: "string \<Rightarrow> string \<Rightarrow> string" where
  "get_model_id qid sid = qid @ '':'' @ sid"

text \<open>
  \<open>create\<close> reads the store and builds an instance; it never calls \<open>put\<close>. The
  store after the call is returned next to the result.
\<close>

definition create ::
  "datastore \<Rightarrow> string \<Rightarrow> string \<Rightarrow> real \<Rightarrow> (error + question_skill_link) \<times> datastore" where
  "create db qid sid difficulty =
     (let question_skill_link_id = get_model_id qid sid in
      if get db question_skill_link_id \<noteq> None then (Inl AlreadyLinked, db)
      else (Inr \<lparr>model_id = question_skill_link_id, question_id = qid,
                 skill_id = sid, skill_difficulty = difficulty\<rparr>, db))"

subsection \<open>Quota\<close>

text \<open>
  Modelled from the spec: \<open>feconf.MAX_NUMBER_OF_SKILL_IDS\<close> is not part of the source
  file; at most 20 skill ids may be supplied.
\<close>

definition MAX_NUMBER_OF_SKILL_IDS :: nat where
  "MAX_NUMBER_OF_SKILL_IDS = 20"

text \<open>
  Modelled from the spec: \<open>python_utils.divide\<close> is not part of the source file; on
  two floats it is their quotient, and a zero divisor raises the division-by-zero
  error.
\<close>

definition divide :: "real \<Rightarrow> real \<Rightarrow> error + real" where
  "divide x y = (if y = 0 then Inl ZeroDivisionError else Inr (x / y))"

text \<open>\<open>int(math.ceil(python_utils.divide(float(total), float(len(skill_ids)))))\<close>\<close>

definition question_count_per_skill :: "nat \<Rightarrow> nat \<Rightarrow> error + nat" where
  "question_count_per_skill total_question_count n =
     (case divide (real total_question_count) (real n) of
        Inl e \<Rightarrow> Inl e
      | Inr r \<Rightarrow> Inr (nat \<lceil>r\<rceil>))"

subsection \<open>Removing from a list while iterating over it\<close>

text \<open>
  \<^verbatim>\<open>for model in models:
    if seen(model): models.remove(model)\<close>
  The \<open>for\<close> loop reads \<open>models[i]\<close> for \<open>i = 0, 1, ...\<close> as long as \<open>i\<close> is below
  the current length; \<open>list.remove\<close> deletes the first element equal to its argument.
\<close>

function remove_while_iterating :: "('a \<Rightarrow> bool) \<Rightarrow> nat \<Rightarrow> 'a list \<Rightarrow> 'a list" where
  "remove_while_iterating seen i models =
     (if i < length models
      then (if seen (models ! i)
            then remove_while_iterating seen (Suc i) (remove1 (models ! i) models)
            else remove_while_iterating seen (Suc i) models)
      else models)"
  by pat_completeness auto
termination
  by (relation "measure (\<lambda>(seen, i, models). length models - i)")
    (auto simp: length_remove1)

declare remove_while_iterating.simps [simp del]

subsection \<open>The selector ranked by difficulty\<close>

type_synonym link_mapping = "(string \<times> question_skill_link) list"

text \<open>\<open>key in mapping\<close>\<close>

definition has_key :: "link_mapping \<Rightarrow> string \<Rightarrow> bool" where
  "has_key mapping k = (k \<in> set (map fst mapping))"

text \<open>
  \<^verbatim>\<open>for model in models:
    if model.question_id not in mapping:
        mapping[model.question_id] = model\<close>
\<close>

fun insert_if_absent :: "link_mapping \<Rightarrow> question_skill_link list \<Rightarrow> link_mapping" where
  "insert_if_absent mapping [] = mapping"
| "insert_if_absent mapping (m # ms) =
     insert_if_absent
       (if has_key mapping (question_id m) then mapping
        else mapping @ [(question_id m, m)]) ms"

text \<open>
  \<open>abs(model.skill_difficulty - difficulty_requested)\<close>, the key of the sort, is computed
  on doubles: the subtraction yields the exact difference rounded to the nearest double,
  that is, to 53 significant bits with a tie going to the even neighbour; \<open>abs\<close> is
  exact. The exponent range is not bounded in \<open>round_to_double\<close>: the difference of two
  doubles is a multiple of the smallest subnormal, so it is never rounded below the
  normal range, and differences of difficulties between 0 and 1 do not overflow.
\<close>

definition round_half_even :: "real \<Rightarrow> int" where
  "round_half_even r =
     (let f = \<lfloor>r\<rfloor> in
      if r - of_int f < 1 / 2 then f
      else if r - of_int f > 1 / 2 then f + 1
      else if even f then f else f + 1)"

definition round_to_double :: "real \<Rightarrow> real" where
  "round_to_double x =
     (if x = 0 then 0
      else let ulp = 2 powr (of_int \<lfloor>log 2 \<bar>x\<bar>\<rfloor> - 52)
           in sgn x * (of_int (round_half_even (\<bar>x\<bar> / ulp)) * ulp))"

definition difference_key :: "real \<Rightarrow> question_skill_link \<Rightarrow> real" where
  "difference_key difficulty_requested m =
     \<bar>round_to_double (skill_difficulty m - difficulty_requested)\<bar>"

text \<open>The body of the loop over \<open>skill_ids\<close>, lines 315 to 372 of the source.\<close>

definition difficulty_step ::
  "datastore \<Rightarrow> nat \<Rightarrow> real \<Rightarrow> link_mapping \<times> store_read list \<Rightarrow> string
     \<Rightarrow> link_mapping \<times> store_read list" where
  "difficulty_step db per_skill d st sid =
     (let mapping = fst st; reads = snd st;
          seen = (\<lambda>m. has_key mapping (question_id m));
          equal_query = Query sid (EqualTo d) Unordered;
          new0 = remove_while_iterating seen 0 (fetch db equal_query (per_skill * 2));
          reads0 = reads @ [(equal_query, per_skill * 2)];
          (new3, reads3) =
            (if length new0 < per_skill then
               (let easier_query = Query sid (LessThan d) Descending;
                    easier = remove_while_iterating seen 0 (fetch db easier_query per_skill);
                    new1 = new0 @ easier;
                    reads1 = reads0 @ [(easier_query, per_skill)];
                    (new2, reads2) =
                      (if length new1 < per_skill then
                         (let harder_query = Query sid (GreaterThan d) Ascending;
                              harder = remove_while_iterating seen 0
                                         (fetch db harder_query per_skill)
                          in (new1 @ harder, reads1 @ [(harder_query, per_skill)]))
                       else (new1, reads1))
                in (sort_key (difference_key d) new2, reads2))
             else (new0, reads0))
      in (insert_if_absent mapping (take per_skill new3), reads3))"

definition get_question_skill_links_based_on_difficulty_equidistributed_by_skill ::
  "datastore \<Rightarrow> nat \<Rightarrow> string list \<Rightarrow> real
     \<Rightarrow> (error + question_skill_link list) \<times> store_read list" where
  "get_question_skill_links_based_on_difficulty_equidistributed_by_skill
     db total_question_count skill_ids difficulty_requested =
     (if length skill_ids > MAX_NUMBER_OF_SKILL_IDS then (Inl InvalidArgument, [])
      else case question_count_per_skill total_question_count (length skill_ids) of
        Inl e \<Rightarrow> (Inl e, [])
      | Inr per_skill \<Rightarrow>
          (let st = foldl (difficulty_step db per_skill difficulty_requested) ([], []) skill_ids
           in (Inr (map snd (fst st)), snd st)))"

subsection \<open>The selector without ranking\<close>

text \<open>
  The state of the loop: \<open>question_skill_link_models\<close>, \<open>existing_question_ids\<close>
  and the log of store reads. The body is lines 408 to 423 of the source.
\<close>

definition equidistributed_step ::
  "datastore \<Rightarrow> nat \<Rightarrow> question_skill_link list \<times> string list \<times> store_read list \<Rightarrow> string
     \<Rightarrow> question_skill_link list \<times> string list \<times> store_read list" where
  "equidistributed_step db per_skill st sid =
     (let models = fst st; existing = fst (snd st); reads = snd (snd st);
          skill_query = Query sid AnyDifficulty Unordered;
          new = remove_while_iterating (\<lambda>m. question_id m \<in> set existing) 0
                  (fetch db skill_query (per_skill * 2))
      in (models @ take per_skill new,
          existing @ map question_id new,
          reads @ [(skill_query, per_skill * 2)]))"

definition get_question_skill_links_equidistributed_by_skill ::
  "datastore \<Rightarrow> nat \<Rightarrow> string list \<Rightarrow> (error + question_skill_link list) \<times> store_read list" where
  "get_question_skill_links_equidistributed_by_skill db total_question_count skill_ids =
     (if length skill_ids > MAX_NUMBER_OF_SKILL_IDS then (Inl InvalidArgument, [])
      else case question_count_per_skill total_question_count (length skill_ids) of
        Inl e \<Rightarrow> (Inl e, [])
      | Inr per_skill \<Rightarrow>
          (let st = foldl (equidistributed_step db per_skill) ([], [], []) skill_ids
           in (Inr (fst st), snd (snd st))))"

subsection \<open>Notions used in the statements\<close>

text \<open>The links of a result that belong to one skill, in the order of the result.\<close>

definition links_of_skill :: "string \<Rightarrow> question_skill_link list \<Rightarrow> question_skill_link list" where
  "links_of_skill sid links = filter (\<lambda>m. skill_id m = sid) links"

text \<open>
  The exact absolute difference between the difficulty of a link and the requested
  difficulty, as a real number. It is not what the code sorts by (that is
  \<open>difference_key\<close>); it states how near a link is.
\<close>

definition distance_to :: "real \<Rightarrow> question_skill_link \<Rightarrow> real" where
  "distance_to difficulty_requested m = \<bar>skill_difficulty m - difficulty_requested\<bar>"

text \<open>
  No link at another difficulty comes before a link of the same skill at exactly the
  requested difficulty.
\<close>

fun exact_first :: "real \<Rightarrow> question_skill_link list \<Rightarrow> bool" where
  "exact_first d [] = True"
| "exact_first d (a # rest) =
     ((skill_difficulty a = d
        \<or> (\<forall>b \<in> set rest. skill_id b = skill_id a \<longrightarrow> skill_difficulty b \<noteq> d))
      \<and> exact_first d rest)"

text \<open>The stored links of one pair of a question and a skill.\<close>

definition links_of_pair ::
  "string \<Rightarrow> string \<Rightarrow> question_skill_link list \<Rightarrow> question_skill_link list" where
  "links_of_pair qid sid links = filter (\<lambda>m. question_id m = qid \<and> skill_id m = sid) links"

text \<open>The stored entity of a link: the instance that \<open>create\<close> builds.\<close>

definition link_of :: "string \<Rightarrow> string \<Rightarrow> real \<Rightarrow> question_skill_link" where
  "link_of qid sid difficulty =
     \<lparr>model_id = get_model_id qid sid, question_id = qid, skill_id = sid,
      skill_difficulty = difficulty\<rparr>"

text \<open>
  Small stores on which the selectors and \<open>create\<close> are run below. The difficulties of
  \<open>store_e\<close> are the doubles nearest to 0.15 and 0.85.
\<close>

definition store_a :: datastore where
  "store_a = [link_of ''q1'' ''s1'' (1/2), link_of ''q2'' ''s1'' (1/2),
              link_of ''q1'' ''s2'' (1/2), link_of ''q2'' ''s2'' (1/2), link_of ''q3'' ''s2'' (1/2)]"

definition store_b :: datastore where
  "store_b = [link_of ''q1'' ''s1'' (1/2), link_of ''q2'' ''s1'' (1/2), link_of ''q2'' ''s2'' (1/2)]"

definition store_c :: datastore where
  "store_c = [link_of ''q1'' ''s1'' (1/4), link_of ''q2'' ''s1'' (5/8)]"

definition store_d :: datastore where
  "store_d = [link_of ''q1'' ''s1'' (1/2), link_of ''q2'' ''s1'' (1/4), link_of ''q3'' ''s1'' (5/8),
              link_of ''q1'' ''s2'' (1/2), link_of ''q4'' ''s2'' (1/8), link_of ''q5'' ''s2'' (1/2)]"

definition store_e :: datastore where
  "store_e = [link_of ''q1'' ''s1'' (5404319552844595 / 36028797018963968),
              link_of ''q2'' ''s1'' (7656119366529843 / 9007199254740992)]"

definition store_f :: datastore where
  "store_f = [link_of ''a'' ''b:c'' (1/2)]"

section \<open>Basic facts\<close>

subsection \<open>The quota is the rounded-up quotient\<close>

lemma nat_ceiling_div:
  assumes "0 < n"
  shows "nat \<lceil>real t / real n\<rceil> = (t + n - 1) div n"
proof -
  let ?q = "(t + n - 1) div n"
  have "?q * n \<le> t + n - 1"
    by simp
  with assms have "?q * n < t + n"
    by linarith
  then have "real (?q * n) < real (t + n)"
    by (simp only: of_nat_less_iff)
  then have "(real ?q - 1) * real n < real t"
    by (simp add: algebra_simps)
  with assms have lower: "real ?q - 1 < real t / real n"
    by (simp add: pos_less_divide_eq)
  have "t + n - 1 < (?q + 1) * n"
    using assms dividend_less_div_times [of n "t + n - 1"] by (simp add: algebra_simps)
  with assms have "t \<le> ?q * n"
    by simp
  then have "real t \<le> real (?q * n)"
    by (simp only: of_nat_le_iff)
  with assms have upper: "real t / real n \<le> real ?q"
    by (simp add: pos_divide_le_eq)
  have "\<lceil>real t / real n\<rceil> = int ?q"
    by (rule ceiling_unique) (use lower upper in simp_all)
  then show ?thesis
    by simp
qed

lemma question_count_per_skill_pos:
  "0 < n \<Longrightarrow> question_count_per_skill t n = Inr ((t + n - 1) div n)"
  by (simp add: question_count_per_skill_def divide_def nat_ceiling_div)

lemma question_count_per_skill_zero:
  "question_count_per_skill t 0 = Inl ZeroDivisionError"
  by (simp add: question_count_per_skill_def divide_def)

subsection \<open>Rounding to a double\<close>

lemma round_half_even_ge_floor: "\<lfloor>r\<rfloor> \<le> round_half_even r"
  by (simp add: round_half_even_def Let_def)

lemma round_half_even_pos: "1 \<le> r \<Longrightarrow> 1 \<le> round_half_even r"
proof -
  assume "1 \<le> r"
  then have "1 \<le> \<lfloor>r\<rfloor>"
    by simp
  with round_half_even_ge_floor [of r] show ?thesis
    by linarith
qed

lemma binade_bounds:
  assumes "x \<noteq> 0"
  shows "2 powr of_int \<lfloor>log 2 \<bar>x\<bar>\<rfloor> \<le> \<bar>x\<bar>"
    and "\<bar>x\<bar> < 2 powr (of_int \<lfloor>log 2 \<bar>x\<bar>\<rfloor> + 1)"
proof -
  from assms have pos: "0 < \<bar>x\<bar>"
    by simp
  have "\<lfloor>log 2 \<bar>x\<bar>\<rfloor> = \<lfloor>log 2 \<bar>x\<bar>\<rfloor>" ..
  with floor_log_eq_powr_iff [of "\<bar>x\<bar>" 2 "\<lfloor>log 2 \<bar>x\<bar>\<rfloor>"] pos
  show "2 powr of_int \<lfloor>log 2 \<bar>x\<bar>\<rfloor> \<le> \<bar>x\<bar>"
    and "\<bar>x\<bar> < 2 powr (of_int \<lfloor>log 2 \<bar>x\<bar>\<rfloor> + 1)"
    by simp_all
qed

lemma round_to_double_zero_iff: "round_to_double x = 0 \<longleftrightarrow> x = 0"
proof
  assume zero: "round_to_double x = 0"
  show "x = 0"
  proof (rule ccontr)
    assume nz: "x \<noteq> 0"
    let ?e = "of_int \<lfloor>log 2 \<bar>x\<bar>\<rfloor> :: real"
    let ?ulp = "2 powr (?e - 52) :: real"
    have ulp: "0 < ?ulp"
      by simp
    have "2 powr ?e \<le> \<bar>x\<bar>"
      using nz by (rule binade_bounds)
    then have "2 powr ?e / ?ulp \<le> \<bar>x\<bar> / ?ulp"
      using ulp by (simp add: divide_right_mono)
    moreover have "2 powr ?e / ?ulp = 2 powr 52"
      by (simp add: powr_diff)
    moreover have "(1::real) \<le> 2 powr 52"
      by simp
    ultimately have "1 \<le> \<bar>x\<bar> / ?ulp"
      by linarith
    then have "1 \<le> round_half_even (\<bar>x\<bar> / ?ulp)"
      by (rule round_half_even_pos)
    then have "0 < real_of_int (round_half_even (\<bar>x\<bar> / ?ulp)) * ?ulp"
      using ulp by simp
    then have "real_of_int (round_half_even (\<bar>x\<bar> / ?ulp)) * ?ulp \<noteq> 0"
      by (rule less_imp_neq [symmetric])
    moreover from nz have "sgn x \<noteq> 0"
      by (simp add: sgn_zero_iff)
    moreover from nz have "round_to_double x
        = sgn x * (real_of_int (round_half_even (\<bar>x\<bar> / ?ulp)) * ?ulp)"
      by (simp only: round_to_double_def Let_def if_False)
    ultimately have "round_to_double x \<noteq> 0"
      by (metis mult_eq_0_iff)
    with zero show False
      by contradiction
  qed
next
  assume "x = 0"
  then show "round_to_double x = 0"
    by (simp add: round_to_double_def)
qed

lemma difference_key_nonneg: "0 \<le> difference_key d m"
  by (simp add: difference_key_def)

lemma difference_key_zero_iff: "difference_key d m = 0 \<longleftrightarrow> skill_difficulty m = d"
  by (simp add: difference_key_def round_to_double_zero_iff)

lemma round_to_double_below_two:
  fixes n :: nat
  assumes "1 \<le> \<bar>x\<bar> * 2 ^ n" and "\<bar>x\<bar> * 2 ^ n < 2"
  shows "round_to_double x
           = sgn x * (of_int (round_half_even (\<bar>x\<bar> * 2 ^ (n + 52))) / 2 ^ (n + 52))"
proof -
  from assms(1) have nz: "x \<noteq> 0"
    by auto
  then have pos: "0 < \<bar>x\<bar>"
    by simp
  have p: "2 powr (- real n) = 1 / 2 ^ n"
    by (simp add: powr_minus powr_realpow inverse_eq_divide)
  have "2 powr (real_of_int (- int n)) \<le> \<bar>x\<bar>"
    using assms(1) by (simp add: p pos_divide_le_eq)
  moreover have "\<bar>x\<bar> < 2 powr (real_of_int (- int n + 1))"
  proof -
    have "real_of_int (- int n + 1) = 1 - real n"
      by simp
    then have "2 powr (real_of_int (- int n + 1)) = 2 powr 1 / 2 powr real n"
      by (simp only: powr_diff)
    also have "\<dots> = 2 / 2 ^ n"
      by (simp add: powr_realpow)
    finally show ?thesis
      using assms(2) by (simp add: pos_less_divide_eq)
  qed
  ultimately have e: "\<lfloor>log 2 \<bar>x\<bar>\<rfloor> = - int n"
    using floor_log_eq_powr_iff [of "\<bar>x\<bar>" 2 "- int n"] pos by simp
  have "2 powr (real_of_int (- int n) - 52) = 2 powr (- real (n + 52))"
    by simp
  also have "\<dots> = 1 / 2 ^ (n + 52)"
    by (simp only: powr_minus powr_realpow inverse_eq_divide)
  finally have ulp: "2 powr (real_of_int (- int n) - 52) = 1 / 2 ^ (n + 52)" .
  show ?thesis
    using nz by (simp add: round_to_double_def Let_def e ulp del: of_int_minus)
qed

lemma rd_zero: "round_to_double 0 = 0"
  by (simp add: round_to_double_def)

lemma rd_quarter: "round_to_double (- (1 / 4)) = - (1 / 4)"
  by (subst round_to_double_below_two [where n = 2]) (simp_all add: round_half_even_def)

lemma rd_eighth: "round_to_double (1 / 8) = 1 / 8"
  by (subst round_to_double_below_two [where n = 3]) (simp_all add: round_half_even_def)

lemma rd_three_eighths: "round_to_double (- (3 / 8)) = - (3 / 8)"
  by (subst round_to_double_below_two [where n = 2]) (simp_all add: round_half_even_def)

lemma rd_v33_a: "round_to_double (5404319552844595 / 36028797018963968 - 1 / 2)
   = - (6305039478318694 / 18014398509481984)"
  by (subst round_to_double_below_two [where n = 2]) (simp_all add: round_half_even_def)

lemma rd_v33_b: "round_to_double (7656119366529843 / 9007199254740992 - 1 / 2)
   = 6305039478318694 / 18014398509481984"
  by (subst round_to_double_below_two [where n = 2]) (simp_all add: round_half_even_def)

subsection \<open>Unfolding the removal loop one iteration at a time\<close>

lemma remove_while_iterating_stop:
  "\<not> i < length xs \<Longrightarrow> remove_while_iterating seen i xs = xs"
  by (simp add: remove_while_iterating.simps)

lemma remove_while_iterating_drop:
  "i < length xs \<Longrightarrow> seen (xs ! i) \<Longrightarrow>
   remove_while_iterating seen i xs = remove_while_iterating seen (Suc i) (remove1 (xs ! i) xs)"
  by (subst remove_while_iterating.simps) simp

lemma remove_while_iterating_keep:
  "i < length xs \<Longrightarrow> \<not> seen (xs ! i) \<Longrightarrow>
   remove_while_iterating seen i xs = remove_while_iterating seen (Suc i) xs"
  by (subst remove_while_iterating.simps) simp

lemmas remove_while_iterating_unfold =
  remove_while_iterating_stop remove_while_iterating_drop remove_while_iterating_keep

subsection \<open>The removal loop only removes\<close>

lemma remove_while_iterating_set:
  "set (remove_while_iterating seen i xs) \<subseteq> set xs"
proof (induction seen i xs rule: remove_while_iterating.induct)
  case (1 seen i models)
  have "set (remove1 (models ! i) models) \<subseteq> set models"
    by (rule set_remove1_subset)
  with 1 show ?case
    by (subst remove_while_iterating.simps) auto
qed

lemma remove_while_iterating_length:
  "length (remove_while_iterating seen i xs) \<le> length xs"
proof (induction seen i xs rule: remove_while_iterating.induct)
  case (1 seen i models)
  have "length (remove1 (models ! i) models) \<le> length models"
    by (simp add: length_remove1)
  with 1 show ?case
    by (subst remove_while_iterating.simps) (auto intro: le_trans)
qed

lemma remove_while_iterating_unseen:
  "filter (\<lambda>x. \<not> seen x) (remove_while_iterating seen i xs) = filter (\<lambda>x. \<not> seen x) xs"
proof (induction seen i xs rule: remove_while_iterating.induct)
  case (1 seen i models)
  have "seen (models ! i) \<Longrightarrow>
        filter (\<lambda>x. \<not> seen x) (remove1 (models ! i) models) = filter (\<lambda>x. \<not> seen x) models"
    by (simp add: filter_remove1 remove1_idem)
  with 1 show ?case
    by (subst remove_while_iterating.simps) auto
qed

lemma subseq_sorted_wrt:
  "subseq xs ys \<Longrightarrow> sorted_wrt P ys \<Longrightarrow> sorted_wrt P xs"
proof (induction rule: list_emb.induct)
  case (list_emb_Nil ys)
  then show ?case by simp
next
  case (list_emb_Cons xs ys y)
  then show ?case by simp
next
  case (list_emb_Cons2 x y xs ys)
  then have "set xs \<subseteq> set ys"
    by (auto dest: list_emb_set)
  with list_emb_Cons2 show ?case
    by auto
qed

lemma subseq_sorted_map:
  "subseq xs ys \<Longrightarrow> sorted (map f ys) \<Longrightarrow> sorted (map f xs)"
  by (simp add: sorted_wrt_map subseq_sorted_wrt)

lemma fetch_set:
  "m \<in> set (fetch db (Query s f ord) n) \<Longrightarrow>
   m \<in> set db \<and> skill_id m = s \<and> matches f (skill_difficulty m)"
  by (cases ord) (auto dest!: in_set_takeD)

lemma fetch_length: "length (fetch db qu n) \<le> n"
  by (cases qu) simp

declare fetch.simps [simp del]

lemma insert_if_absent_block:
  "\<exists>blk. insert_if_absent mp ms = mp @ map (\<lambda>m. (question_id m, m)) blk \<and> subseq blk ms"
proof (induction ms arbitrary: mp)
  case Nil
  show ?case by simp
next
  case (Cons m ms)
  show ?case
  proof (cases "has_key mp (question_id m)")
    case True
    from Cons [of mp] obtain blk
      where "insert_if_absent mp ms = mp @ map (\<lambda>m. (question_id m, m)) blk" "subseq blk ms"
      by blast
    with True show ?thesis
      by auto
  next
    case False
    from Cons [of "mp @ [(question_id m, m)]"] obtain blk
      where "insert_if_absent (mp @ [(question_id m, m)]) ms =
               (mp @ [(question_id m, m)]) @ map (\<lambda>m. (question_id m, m)) blk" "subseq blk ms"
      by blast
    with False have "insert_if_absent mp (m # ms) = mp @ map (\<lambda>m. (question_id m, m)) (m # blk)
        \<and> subseq (m # blk) (m # ms)"
      by simp
    then show ?thesis
      by blast
  qed
qed

subsection \<open>One skill of the selector ranked by difficulty\<close>

lemma sorted_map_const:
  "\<forall>x \<in> set xs. f x = c \<Longrightarrow> sorted (map f xs)"
  by (induction xs) auto

lemma removed_fetch_member:
  assumes "m \<in> set (remove_while_iterating seen i (fetch db (Query s f ord) n))"
  shows "m \<in> set db \<and> skill_id m = s \<and> matches f (skill_difficulty m)"
  using assms remove_while_iterating_set [of seen i "fetch db (Query s f ord) n"] fetch_set [of m db s f ord n]
  by blast

lemma difficulty_step_shape:
  "\<exists>cands reads.
     difficulty_step db q d (mp, rds) sid = (insert_if_absent mp (take q cands), rds @ reads)
     \<and> (\<forall>m \<in> set cands. m \<in> set db \<and> skill_id m = sid)
     \<and> sorted (map (difference_key d) cands)"
proof -
  let ?seen = "\<lambda>m. has_key mp (question_id m)"
  let ?new0 = "remove_while_iterating ?seen 0 (fetch db (Query sid (EqualTo d) Unordered) (q * 2))"
  let ?easier = "remove_while_iterating ?seen 0 (fetch db (Query sid (LessThan d) Descending) q)"
  let ?harder = "remove_while_iterating ?seen 0 (fetch db (Query sid (GreaterThan d) Ascending) q)"
  have m0: "\<forall>m \<in> set ?new0. m \<in> set db \<and> skill_id m = sid \<and> skill_difficulty m = d"
    using removed_fetch_member [of _ ?seen 0 db sid "EqualTo d" Unordered "q * 2"] by auto
  have m1: "\<forall>m \<in> set ?easier. m \<in> set db \<and> skill_id m = sid"
    using removed_fetch_member [of _ ?seen 0 db sid "LessThan d" Descending q] by auto
  have m2: "\<forall>m \<in> set ?harder. m \<in> set db \<and> skill_id m = sid"
    using removed_fetch_member [of _ ?seen 0 db sid "GreaterThan d" Ascending q] by auto
  consider (enough) "\<not> length ?new0 < q"
    | (easier) "length ?new0 < q" "\<not> length (?new0 @ ?easier) < q"
    | (harder) "length ?new0 < q" "length (?new0 @ ?easier) < q"
    by blast
  then show ?thesis
  proof cases
    case enough
    then have "difficulty_step db q d (mp, rds) sid =
        (insert_if_absent mp (take q ?new0), rds @ [(Query sid (EqualTo d) Unordered, q * 2)])"
      unfolding difficulty_step_def Let_def by simp
    moreover have "sorted (map (difference_key d) ?new0)"
      by (rule sorted_map_const [where c = 0]) (use m0 in \<open>simp add: difference_key_zero_iff\<close>)
    ultimately show ?thesis
      using m0 by blast
  next
    case easier
    then have "difficulty_step db q d (mp, rds) sid =
        (insert_if_absent mp (take q (sort_key (difference_key d) (?new0 @ ?easier))),
         rds @ [(Query sid (EqualTo d) Unordered, q * 2), (Query sid (LessThan d) Descending, q)])"
      unfolding difficulty_step_def Let_def by simp
    moreover have "\<forall>m \<in> set (sort_key (difference_key d) (?new0 @ ?easier)). m \<in> set db \<and> skill_id m = sid"
      using m0 m1 by auto
    moreover have "sorted (map (difference_key d) (sort_key (difference_key d) (?new0 @ ?easier)))"
      by (rule sorted_sort_key)
    ultimately show ?thesis
      by blast
  next
    case harder
    then have "difficulty_step db q d (mp, rds) sid =
        (insert_if_absent mp (take q (sort_key (difference_key d) (?new0 @ ?easier @ ?harder))),
         rds @ [(Query sid (EqualTo d) Unordered, q * 2), (Query sid (LessThan d) Descending, q),
                (Query sid (GreaterThan d) Ascending, q)])"
      unfolding difficulty_step_def Let_def by simp
    moreover have "\<forall>m \<in> set (sort_key (difference_key d) (?new0 @ ?easier @ ?harder)).
        m \<in> set db \<and> skill_id m = sid"
      using m0 m1 m2 by auto
    moreover have "sorted (map (difference_key d) (sort_key (difference_key d) (?new0 @ ?easier @ ?harder)))"
      by (rule sorted_sort_key)
    ultimately show ?thesis
      by blast
  qed
qed

lemma difficulty_step_block:
  "\<exists>blk reads.
     difficulty_step db q d (mp, rds) sid = (mp @ map (\<lambda>m. (question_id m, m)) blk, rds @ reads)
     \<and> length blk \<le> q
     \<and> (\<forall>m \<in> set blk. m \<in> set db \<and> skill_id m = sid)
     \<and> sorted (map (difference_key d) blk)"
proof -
  from difficulty_step_shape [of db q d mp rds sid] obtain cands reads where
    step: "difficulty_step db q d (mp, rds) sid = (insert_if_absent mp (take q cands), rds @ reads)"
    and mem: "\<forall>m \<in> set cands. m \<in> set db \<and> skill_id m = sid"
    and srt: "sorted (map (difference_key d) cands)"
    by blast
  from insert_if_absent_block [of mp "take q cands"] obtain blk where
    blk: "insert_if_absent mp (take q cands) = mp @ map (\<lambda>m. (question_id m, m)) blk"
    and sub: "subseq blk (take q cands)"
    by blast
  from sub have "length blk \<le> length (take q cands)"
    by (rule list_emb_length)
  then have len: "length blk \<le> q"
    by simp
  from sub have "set blk \<subseteq> set (take q cands)"
    by (rule list_emb_set [THEN subsetI]) auto
  then have "set blk \<subseteq> set cands"
    using set_take_subset by fast
  with mem have mem': "\<forall>m \<in> set blk. m \<in> set db \<and> skill_id m = sid"
    by blast
  from srt have "sorted (map (difference_key d) (take q cands))"
    by (simp add: take_map [symmetric])
  with sub have "sorted (map (difference_key d) blk)"
    by (rule subseq_sorted_map)
  with step blk len mem' show ?thesis
    by auto
qed

subsection \<open>The loop over the skill ids\<close>

lemma difficulty_fold_blocks:
  "\<exists>blocks rds'.
     foldl (difficulty_step db q d) (mp, rds) sids
       = (mp @ map (\<lambda>m. (question_id m, m)) (concat blocks), rds')
     \<and> list_all2 (\<lambda>sid blk. length blk \<le> q \<and> (\<forall>m \<in> set blk. m \<in> set db \<and> skill_id m = sid)
                      \<and> sorted (map (difference_key d) blk)) sids blocks"
proof (induction sids arbitrary: mp rds)
  case Nil
  show ?case
    by (rule exI [of _ "[]"], rule exI [of _ rds]) simp
next
  case (Cons sid sids)
  from difficulty_step_block [of db q d mp rds sid] obtain blk reads where
    step: "difficulty_step db q d (mp, rds) sid = (mp @ map (\<lambda>m. (question_id m, m)) blk, rds @ reads)"
    and blk: "length blk \<le> q \<and> (\<forall>m \<in> set blk. m \<in> set db \<and> skill_id m = sid)
              \<and> sorted (map (difference_key d) blk)"
    by blast
  from Cons [of "mp @ map (\<lambda>m. (question_id m, m)) blk" "rds @ reads"] obtain blocks rds' where
    rest: "foldl (difficulty_step db q d) (mp @ map (\<lambda>m. (question_id m, m)) blk, rds @ reads) sids
       = ((mp @ map (\<lambda>m. (question_id m, m)) blk) @ map (\<lambda>m. (question_id m, m)) (concat blocks), rds')"
    and all: "list_all2 (\<lambda>sid blk. length blk \<le> q \<and> (\<forall>m \<in> set blk. m \<in> set db \<and> skill_id m = sid)
                      \<and> sorted (map (difference_key d) blk)) sids blocks"
    by blast
  from step rest have "foldl (difficulty_step db q d) (mp, rds) (sid # sids)
       = (mp @ map (\<lambda>m. (question_id m, m)) (concat (blk # blocks)), rds')"
    by simp
  moreover from blk all have "list_all2 (\<lambda>sid blk. length blk \<le> q
        \<and> (\<forall>m \<in> set blk. m \<in> set db \<and> skill_id m = sid)
        \<and> sorted (map (difference_key d) blk)) (sid # sids) (blk # blocks)"
    by simp
  ultimately show ?case
    by (intro exI [of _ "blk # blocks"] exI [of _ rds'] conjI)
qed

lemma insert_if_absent_keys:
  assumes "distinct (map fst mp)" and "\<forall>(k, m) \<in> set mp. k = question_id m"
  shows "distinct (map fst (insert_if_absent mp ms))
       \<and> (\<forall>(k, m) \<in> set (insert_if_absent mp ms). k = question_id m)"
  using assms
proof (induction ms arbitrary: mp)
  case Nil
  then show ?case by simp
next
  case (Cons m ms)
  let ?mp = "if has_key mp (question_id m) then mp else mp @ [(question_id m, m)]"
  have "distinct (map fst ?mp)" and "\<forall>(k, m) \<in> set ?mp. k = question_id m"
    using Cons.prems by (auto simp: has_key_def)
  then show ?case
    using Cons.IH [of ?mp] by simp
qed

lemma difficulty_fold_keys:
  assumes "distinct (map fst mp)" and "\<forall>(k, m) \<in> set mp. k = question_id m"
  shows "distinct (map fst (fst (foldl (difficulty_step db q d) (mp, rds) sids)))
       \<and> (\<forall>(k, m) \<in> set (fst (foldl (difficulty_step db q d) (mp, rds) sids)). k = question_id m)"
  using assms
proof (induction sids arbitrary: mp rds)
  case Nil
  then show ?case by simp
next
  case (Cons sid sids)
  from difficulty_step_shape [of db q d mp rds sid] obtain cands reads where
    step: "difficulty_step db q d (mp, rds) sid = (insert_if_absent mp (take q cands), rds @ reads)"
    by blast
  from insert_if_absent_keys [OF Cons.prems, of "take q cands"]
  show ?case
    using Cons.IH [of "insert_if_absent mp (take q cands)" "rds @ reads"] step by simp
qed

lemma keyed_values_distinct:
  assumes "distinct (map fst mp)" and "\<forall>(k, m) \<in> set mp. k = question_id m"
  shows "distinct (map question_id (map snd mp))"
proof -
  from assms(2) have "map fst mp = map question_id (map snd mp)"
    by (induction mp) auto
  with assms(1) show ?thesis
    by simp
qed


lemma filter_other_skills:
  "list_all2 (\<lambda>s blk. \<forall>m \<in> set blk. skill_id m = s) sids blocks \<Longrightarrow> sid \<notin> set sids
   \<Longrightarrow> filter (\<lambda>m. skill_id m = sid) (concat blocks) = []"
  by (induction rule: list_all2_induct) auto

lemma filter_blocks_sorted:
  "list_all2 (\<lambda>s blk. (\<forall>m \<in> set blk. skill_id m = s) \<and> sorted (map f blk)) sids blocks
   \<Longrightarrow> distinct sids
   \<Longrightarrow> sorted (map f (filter (\<lambda>m. skill_id m = sid) (concat blocks)))"
proof (induction rule: list_all2_induct)
  case Nil
  then show ?case by simp
next
  case (Cons s sids blk blocks)
  show ?case
  proof (cases "s = sid")
    case True
    with Cons.prems have "sid \<notin> set sids"
      by simp
    moreover from Cons.hyps(2) have "list_all2 (\<lambda>s blk. \<forall>m \<in> set blk. skill_id m = s) sids blocks"
      by (rule list_all2_mono) simp
    ultimately have "filter (\<lambda>m. skill_id m = sid) (concat blocks) = []"
      by (rule filter_other_skills [rotated])
    moreover from True Cons.hyps(1) have "filter (\<lambda>m. skill_id m = sid) blk = blk"
      by (simp add: filter_id_conv)
    ultimately show ?thesis
      using Cons.hyps(1) by simp
  next
    case False
    with Cons.hyps(1) have "filter (\<lambda>m. skill_id m = sid) blk = []"
      by (auto simp: filter_empty_conv)
    with Cons show ?thesis
      by simp
  qed
qed

subsection \<open>Links at the requested difficulty come first\<close>

lemma exact_first_appendI:
  assumes "exact_first d xs" and "exact_first d ys"
    and "\<forall>a \<in> set xs. \<forall>b \<in> set ys.
           skill_id b = skill_id a \<and> skill_difficulty b = d \<longrightarrow> skill_difficulty a = d"
  shows "exact_first d (xs @ ys)"
  using assms
proof (induction xs)
  case Nil
  then show ?case by simp
next
  case (Cons a xs)
  from Cons.prems(1) have a: "skill_difficulty a = d
        \<or> (\<forall>b \<in> set xs. skill_id b = skill_id a \<longrightarrow> skill_difficulty b \<noteq> d)"
    and xs: "exact_first d xs"
    by simp_all
  from Cons.prems(3) have cross_a: "\<forall>b \<in> set ys.
        skill_id b = skill_id a \<and> skill_difficulty b = d \<longrightarrow> skill_difficulty a = d"
    and cross_xs: "\<forall>a \<in> set xs. \<forall>b \<in> set ys.
           skill_id b = skill_id a \<and> skill_difficulty b = d \<longrightarrow> skill_difficulty a = d"
    by simp_all
  from xs Cons.prems(2) cross_xs have rest: "exact_first d (xs @ ys)"
    by (rule Cons.IH)
  have "skill_difficulty a = d
        \<or> (\<forall>b \<in> set (xs @ ys). skill_id b = skill_id a \<longrightarrow> skill_difficulty b \<noteq> d)"
  proof (cases "skill_difficulty a = d")
    case True
    then show ?thesis ..
  next
    case False
    with a have "\<forall>b \<in> set xs. skill_id b = skill_id a \<longrightarrow> skill_difficulty b \<noteq> d"
      by simp
    moreover from False cross_a
    have "\<forall>b \<in> set ys. skill_id b = skill_id a \<longrightarrow> skill_difficulty b \<noteq> d"
      by simp
    ultimately show ?thesis
      by (simp add: ball_Un)
  qed
  with rest show ?case
    by simp
qed

lemma exact_first_split:
  assumes "exact_first d (pre @ a # mid @ b # post)"
    and "skill_id a = skill_id b" and "skill_difficulty b = d"
  shows "skill_difficulty a = d"
  using assms
proof (induction pre)
  case Nil
  then have "skill_difficulty a = d
        \<or> (\<forall>x \<in> set (mid @ b # post). skill_id x = skill_id a \<longrightarrow> skill_difficulty x \<noteq> d)"
    by simp
  then show ?case
  proof
    assume "skill_difficulty a = d"
    then show ?thesis .
  next
    assume "\<forall>x \<in> set (mid @ b # post). skill_id x = skill_id a \<longrightarrow> skill_difficulty x \<noteq> d"
    moreover have "b \<in> set (mid @ b # post)"
      by simp
    ultimately have "skill_id b = skill_id a \<longrightarrow> skill_difficulty b \<noteq> d"
      by (rule bspec)
    with Nil.prems(2,3) show ?thesis
      by simp
  qed
next
  case (Cons x pre)
  from Cons.prems(1) have "exact_first d (pre @ a # mid @ b # post)"
    by simp
  then show ?case
    using Cons.prems(2,3) by (rule Cons.IH)
qed

lemma sorted_key_exact_first:
  assumes "sorted (map (difference_key d) xs)"
  shows "exact_first d xs"
  using assms
proof (induction xs)
  case Nil
  then show ?case by simp
next
  case (Cons a xs)
  have "skill_difficulty a = d" if "b \<in> set xs" "skill_difficulty b = d" for b
  proof -
    from Cons.prems that(1) have "difference_key d a \<le> difference_key d b"
      by auto
    moreover from that(2) have "difference_key d b = 0"
      by (simp add: difference_key_zero_iff)
    ultimately have "difference_key d a = 0"
      using difference_key_nonneg [of d a] by linarith
    then show ?thesis
      by (simp add: difference_key_zero_iff)
  qed
  note exact = this
  have "skill_difficulty a = d
        \<or> (\<forall>b \<in> set xs. skill_id b = skill_id a \<longrightarrow> skill_difficulty b \<noteq> d)"
  proof (cases "skill_difficulty a = d")
    case True
    then show ?thesis ..
  next
    case False
    have "\<forall>b \<in> set xs. skill_difficulty b \<noteq> d"
    proof
      fix b
      assume b: "b \<in> set xs"
      show "skill_difficulty b \<noteq> d"
      proof
        assume "skill_difficulty b = d"
        with b have "skill_difficulty a = d"
          by (rule exact)
        with False show False
          by contradiction
      qed
    qed
    then show ?thesis
      by simp
  qed
  moreover from Cons have "exact_first d xs"
    by simp
  ultimately show ?case
    by simp
qed

lemma insert_if_absent_fresh_block:
  "\<exists>blk. insert_if_absent mp ms = mp @ map (\<lambda>m. (question_id m, m)) blk \<and> subseq blk ms
     \<and> (\<forall>m \<in> set blk. \<not> has_key mp (question_id m))"
proof (induction ms arbitrary: mp)
  case Nil
  show ?case by simp
next
  case (Cons m ms)
  show ?case
  proof (cases "has_key mp (question_id m)")
    case True
    from Cons [of mp] obtain blk where
      "insert_if_absent mp ms = mp @ map (\<lambda>m. (question_id m, m)) blk \<and> subseq blk ms
        \<and> (\<forall>m \<in> set blk. \<not> has_key mp (question_id m))"
      by (elim exE)
    with True have
      "insert_if_absent mp (m # ms) = mp @ map (\<lambda>m. (question_id m, m)) blk
        \<and> subseq blk (m # ms)
        \<and> (\<forall>x \<in> set blk. \<not> has_key mp (question_id x))"
      by (auto intro: list_emb_Cons)
    then show ?thesis
      by (rule exI)
  next
    case False
    from Cons [of "mp @ [(question_id m, m)]"] obtain blk where
      blk: "insert_if_absent (mp @ [(question_id m, m)]) ms =
               (mp @ [(question_id m, m)]) @ map (\<lambda>m. (question_id m, m)) blk"
      and sub: "subseq blk ms"
      and fresh: "\<forall>x \<in> set blk. \<not> has_key (mp @ [(question_id m, m)]) (question_id x)"
      by (elim exE conjE)
    from fresh have "\<forall>x \<in> set blk. \<not> has_key mp (question_id x)"
      by (auto simp: has_key_def)
    with False blk sub have
      "insert_if_absent mp (m # ms) = mp @ map (\<lambda>m. (question_id m, m)) (m # blk)
        \<and> subseq (m # blk) (m # ms)
        \<and> (\<forall>x \<in> set (m # blk). \<not> has_key mp (question_id x))"
      by simp
    then show ?thesis
      by (rule exI)
  qed
qed

lemma insert_if_absent_keeps_keys:
  "has_key mp k \<Longrightarrow> has_key (insert_if_absent mp ms) k"
  by (induction ms arbitrary: mp) (auto simp: has_key_def)

lemma insert_if_absent_has_keys:
  "m \<in> set ms \<Longrightarrow> has_key (insert_if_absent mp ms) (question_id m)"
proof (induction ms arbitrary: mp)
  case Nil
  then show ?case by simp
next
  case (Cons x ms)
  show ?case
  proof (cases "m = x")
    case True
    have "has_key (if has_key mp (question_id x) then mp else mp @ [(question_id x, x)])
            (question_id x)"
      by (simp add: has_key_def)
    then show ?thesis
      using True by (simp add: insert_if_absent_keeps_keys)
  next
    case False
    with Cons show ?thesis
      by simp
  qed
qed

lemma sorted_zero_keys_first:
  fixes key :: "'a \<Rightarrow> real"
  assumes "sorted (map key ys)" and "\<forall>y \<in> set ys. 0 \<le> key y"
  shows "ys = filter (\<lambda>y. key y = 0) ys @ filter (\<lambda>y. key y \<noteq> 0) ys"
  using assms
proof (induction ys)
  case Nil
  then show ?case by simp
next
  case (Cons y ys)
  show ?case
  proof (cases "key y = 0")
    case True
    with Cons show ?thesis
      by simp
  next
    case False
    with Cons.prems have "\<forall>z \<in> set ys. key z \<noteq> 0"
      by fastforce
    then have "filter (\<lambda>y. key y = 0) ys = []" and "filter (\<lambda>y. key y \<noteq> 0) ys = ys"
      by (simp_all add: filter_empty_conv filter_id_conv)
    with False show ?thesis
      by simp
  qed
qed

lemma exact_candidates_survive_sort:
  assumes exact: "\<forall>m \<in> set new0. skill_difficulty m = d"
    and other: "\<forall>m \<in> set rest. skill_difficulty m \<noteq> d"
    and short: "length new0 < q"
  shows "set new0 \<subseteq> set (take q (sort_key (difference_key d) (new0 @ rest)))"
proof -
  let ?ys = "sort_key (difference_key d) (new0 @ rest)"
  have "filter (\<lambda>y. difference_key d y = 0) ?ys
          = filter (\<lambda>y. difference_key d y = 0) (new0 @ rest)"
    by (rule sort_key_stable)
  also from exact other have "\<dots> = new0"
    by (simp add: difference_key_zero_iff filter_id_conv filter_empty_conv)
  finally have zero: "filter (\<lambda>y. difference_key d y = 0) ?ys = new0" .
  define others where "others = filter (\<lambda>y. difference_key d y \<noteq> 0) ?ys"
  have parts: "?ys = filter (\<lambda>y. difference_key d y = 0) ?ys
                     @ filter (\<lambda>y. difference_key d y \<noteq> 0) ?ys"
    by (rule sorted_zero_keys_first) (simp_all add: difference_key_nonneg)
  have split: "?ys = new0 @ others"
    by (rule trans [OF parts]) (simp only: zero others_def)
  from short have "set new0 \<subseteq> set (take q (new0 @ others))"
    by simp
  then show ?thesis
    by (simp only: split)
qed

lemma unseen_fetched_survives:
  assumes "x \<in> set xs" and "\<not> seen x"
  shows "x \<in> set (remove_while_iterating seen i xs)"
proof -
  from assms have "x \<in> set (filter (\<lambda>x. \<not> seen x) xs)"
    by simp
  then have "x \<in> set (filter (\<lambda>x. \<not> seen x) (remove_while_iterating seen i xs))"
    by (simp only: remove_while_iterating_unseen)
  then show ?thesis
    by simp
qed

lemma difficulty_step_candidates:
  "\<exists>cands reads.
     difficulty_step db q d (mp, rds) sid = (insert_if_absent mp (take q cands), rds @ reads)
     \<and> (\<forall>m \<in> set cands. skill_id m = sid)
     \<and> (\<forall>m \<in> set cands. skill_difficulty m = d
           \<longrightarrow> m \<in> set (fetch db (Query sid (EqualTo d) Unordered) (q * 2)))
     \<and> sorted (map (difference_key d) cands)
     \<and> ((\<exists>m \<in> set cands. skill_difficulty m \<noteq> d)
           \<longrightarrow> (\<forall>x \<in> set (fetch db (Query sid (EqualTo d) Unordered) (q * 2)).
                  \<not> has_key mp (question_id x) \<longrightarrow> x \<in> set (take q cands)))"
proof -
  let ?seen = "\<lambda>m. has_key mp (question_id m)"
  let ?exact = "fetch db (Query sid (EqualTo d) Unordered) (q * 2)"
  let ?new0 = "remove_while_iterating ?seen 0 ?exact"
  let ?easier = "remove_while_iterating ?seen 0 (fetch db (Query sid (LessThan d) Descending) q)"
  let ?harder = "remove_while_iterating ?seen 0 (fetch db (Query sid (GreaterThan d) Ascending) q)"
  have m0: "\<forall>m \<in> set ?new0. m \<in> set ?exact \<and> skill_id m = sid \<and> skill_difficulty m = d"
  proof
    fix m
    assume m: "m \<in> set ?new0"
    with remove_while_iterating_set [of ?seen 0 ?exact] have "m \<in> set ?exact"
      by (rule subsetD)
    moreover from m have "skill_id m = sid \<and> skill_difficulty m = d"
      using removed_fetch_member [of m ?seen 0 db sid "EqualTo d" Unordered "q * 2"] by simp
    ultimately show "m \<in> set ?exact \<and> skill_id m = sid \<and> skill_difficulty m = d"
      by simp
  qed
  have m1: "\<forall>m \<in> set ?easier. skill_id m = sid \<and> skill_difficulty m \<noteq> d"
  proof
    fix m
    assume "m \<in> set ?easier"
    then show "skill_id m = sid \<and> skill_difficulty m \<noteq> d"
      using removed_fetch_member [of m ?seen 0 db sid "LessThan d" Descending q] by simp
  qed
  have m2: "\<forall>m \<in> set ?harder. skill_id m = sid \<and> skill_difficulty m \<noteq> d"
  proof
    fix m
    assume "m \<in> set ?harder"
    then show "skill_id m = sid \<and> skill_difficulty m \<noteq> d"
      using removed_fetch_member [of m ?seen 0 db sid "GreaterThan d" Ascending q] by simp
  qed
  have sorted_case: ?thesis
    if short: "length ?new0 < q"
      and step: "difficulty_step db q d (mp, rds) sid =
        (insert_if_absent mp (take q (sort_key (difference_key d) (?new0 @ rest))), rds @ reads)"
      and rest: "\<forall>m \<in> set rest. skill_id m = sid \<and> skill_difficulty m \<noteq> d"
    for rest reads
  proof -
    let ?cands = "sort_key (difference_key d) (?new0 @ rest)"
    have skills: "\<forall>m \<in> set ?cands. skill_id m = sid"
      using m0 rest by (simp add: ball_Un ball_conj_distrib)
    have exact: "\<forall>m \<in> set ?cands. skill_difficulty m = d \<longrightarrow> m \<in> set ?exact"
      using m0 rest by (simp add: ball_Un ball_conj_distrib)
    have srt: "sorted (map (difference_key d) ?cands)"
      by (rule sorted_sort_key)
    have "set ?new0 \<subseteq> set (take q ?cands)"
      by (rule exact_candidates_survive_sort)
        (use m0 rest short in \<open>simp_all add: ball_conj_distrib\<close>)
    then have "\<forall>x \<in> set ?exact. \<not> has_key mp (question_id x) \<longrightarrow> x \<in> set (take q ?cands)"
      using unseen_fetched_survives [of _ ?exact ?seen 0] by (auto simp: subset_iff)
    with step skills exact srt show ?thesis
      by (intro exI [of _ ?cands] exI [of _ reads] conjI impI)
  qed
  consider (enough) "\<not> length ?new0 < q"
    | (easier) "length ?new0 < q" "\<not> length (?new0 @ ?easier) < q"
    | (harder) "length ?new0 < q" "length (?new0 @ ?easier) < q"
    by linarith
  then show ?thesis
  proof cases
    case enough
    then have step: "difficulty_step db q d (mp, rds) sid =
        (insert_if_absent mp (take q ?new0), rds @ [(Query sid (EqualTo d) Unordered, q * 2)])"
      unfolding difficulty_step_def Let_def by simp
    have "sorted (map (difference_key d) ?new0)"
      by (rule sorted_map_const [where c = 0]) (use m0 in \<open>simp add: difference_key_zero_iff\<close>)
    moreover from m0 have "\<not> (\<exists>m \<in> set ?new0. skill_difficulty m \<noteq> d)"
      by simp
    ultimately show ?thesis
      using step m0
      by (intro exI [of _ ?new0] exI [of _ "[(Query sid (EqualTo d) Unordered, q * 2)]"] conjI)
        (simp_all add: ball_conj_distrib)
  next
    case easier
    then have "difficulty_step db q d (mp, rds) sid =
        (insert_if_absent mp (take q (sort_key (difference_key d) (?new0 @ ?easier))),
         rds @ [(Query sid (EqualTo d) Unordered, q * 2), (Query sid (LessThan d) Descending, q)])"
      unfolding difficulty_step_def Let_def by simp
    with easier(1) show ?thesis
      using m1 by (rule sorted_case)
  next
    case harder
    then have "difficulty_step db q d (mp, rds) sid =
        (insert_if_absent mp (take q (sort_key (difference_key d) (?new0 @ ?easier @ ?harder))),
         rds @ [(Query sid (EqualTo d) Unordered, q * 2), (Query sid (LessThan d) Descending, q),
                (Query sid (GreaterThan d) Ascending, q)])"
      unfolding difficulty_step_def Let_def by simp
    moreover from m1 m2 have "\<forall>m \<in> set (?easier @ ?harder). skill_id m = sid \<and> skill_difficulty m \<noteq> d"
      by (simp add: ball_Un)
    ultimately show ?thesis
      using harder(1) by (intro sorted_case)
  qed
qed

lemma difficulty_step_exact_first:
  assumes ef: "exact_first d (map snd mp)"
    and cov: "\<forall>m \<in> set (map snd mp). skill_difficulty m \<noteq> d \<longrightarrow>
        (\<forall>x \<in> set (fetch db (Query (skill_id m) (EqualTo d) Unordered) (q * 2)).
           has_key mp (question_id x))"
  shows "exact_first d (map snd (fst (difficulty_step db q d (mp, rds) sid)))
     \<and> (\<forall>m \<in> set (map snd (fst (difficulty_step db q d (mp, rds) sid))).
          skill_difficulty m \<noteq> d \<longrightarrow>
          (\<forall>x \<in> set (fetch db (Query (skill_id m) (EqualTo d) Unordered) (q * 2)).
             has_key (fst (difficulty_step db q d (mp, rds) sid)) (question_id x)))"
proof -
  let ?exact = "fetch db (Query sid (EqualTo d) Unordered) (q * 2)"
  from difficulty_step_candidates [of db q d mp rds sid] obtain cands reads where
    step: "difficulty_step db q d (mp, rds) sid = (insert_if_absent mp (take q cands), rds @ reads)"
    and skills: "\<forall>m \<in> set cands. skill_id m = sid"
    and exact: "\<forall>m \<in> set cands. skill_difficulty m = d \<longrightarrow> m \<in> set ?exact"
    and srt: "sorted (map (difference_key d) cands)"
    and all_in: "(\<exists>m \<in> set cands. skill_difficulty m \<noteq> d)
           \<longrightarrow> (\<forall>x \<in> set ?exact. \<not> has_key mp (question_id x) \<longrightarrow> x \<in> set (take q cands))"
    by (elim exE conjE)
  let ?mp' = "insert_if_absent mp (take q cands)"
  from insert_if_absent_fresh_block [of mp "take q cands"] obtain blk where
    mp': "?mp' = mp @ map (\<lambda>m. (question_id m, m)) blk"
    and sub: "subseq blk (take q cands)"
    and fresh: "\<forall>m \<in> set blk. \<not> has_key mp (question_id m)"
    by (elim exE conjE)
  have vals: "map snd ?mp' = map snd mp @ blk"
    by (simp add: mp' comp_def)
  from sub have "set blk \<subseteq> set (take q cands)"
    by (rule list_emb_set [THEN subsetI]) auto
  then have blk_cands: "set blk \<subseteq> set cands"
    using set_take_subset by fast
  from srt have "sorted (map (difference_key d) (take q cands))"
    by (simp add: take_map [symmetric])
  with sub have "sorted (map (difference_key d) blk)"
    by (rule subseq_sorted_map)
  then have ef_blk: "exact_first d blk"
    by (rule sorted_key_exact_first)
  have cross: "\<forall>a \<in> set (map snd mp). \<forall>b \<in> set blk.
      skill_id b = skill_id a \<and> skill_difficulty b = d \<longrightarrow> skill_difficulty a = d"
  proof (intro ballI impI)
    fix a b
    assume a: "a \<in> set (map snd mp)" and b: "b \<in> set blk"
      and same: "skill_id b = skill_id a \<and> skill_difficulty b = d"
    show "skill_difficulty a = d"
    proof (rule ccontr)
      assume other: "skill_difficulty a \<noteq> d"
      from cov a have "skill_difficulty a \<noteq> d \<longrightarrow>
          (\<forall>x \<in> set (fetch db (Query (skill_id a) (EqualTo d) Unordered) (q * 2)).
             has_key mp (question_id x))"
        by (rule bspec)
      from this other have keyed: "\<forall>x \<in> set (fetch db (Query (skill_id a) (EqualTo d) Unordered) (q * 2)).
           has_key mp (question_id x)"
        by (rule mp)
      from b blk_cands have bc: "b \<in> set cands"
        by (rule subsetD [rotated])
      with skills have "skill_id b = sid"
        by simp
      with same have sa: "skill_id a = sid"
        by simp
      from bc exact same have "b \<in> set ?exact"
        by simp
      moreover from keyed have "\<forall>x \<in> set ?exact. has_key mp (question_id x)"
        by (simp only: sa)
      ultimately have "has_key mp (question_id b)"
        by (rule bspec [rotated])
      moreover from fresh b have "\<not> has_key mp (question_id b)"
        by simp
      ultimately show False
        by contradiction
    qed
  qed
  from ef ef_blk cross have "exact_first d (map snd mp @ blk)"
    by (rule exact_first_appendI)
  then have first: "exact_first d (map snd ?mp')"
    by (simp only: vals)
  have covered: "\<forall>m \<in> set (map snd ?mp'). skill_difficulty m \<noteq> d \<longrightarrow>
          (\<forall>x \<in> set (fetch db (Query (skill_id m) (EqualTo d) Unordered) (q * 2)).
             has_key ?mp' (question_id x))"
  proof (intro ballI impI)
    fix m x
    assume m: "m \<in> set (map snd ?mp')" and other: "skill_difficulty m \<noteq> d"
      and x: "x \<in> set (fetch db (Query (skill_id m) (EqualTo d) Unordered) (q * 2))"
    from m have "m \<in> set (map snd mp) \<or> m \<in> set blk"
      by (simp only: vals set_append Un_iff)
    then show "has_key ?mp' (question_id x)"
    proof
      assume "m \<in> set (map snd mp)"
      with cov have "skill_difficulty m \<noteq> d \<longrightarrow>
          (\<forall>x \<in> set (fetch db (Query (skill_id m) (EqualTo d) Unordered) (q * 2)).
             has_key mp (question_id x))"
        by (rule bspec)
      from this other have "\<forall>x \<in> set (fetch db (Query (skill_id m) (EqualTo d) Unordered) (q * 2)).
             has_key mp (question_id x)"
        by (rule mp)
      from this x have "has_key mp (question_id x)"
        by (rule bspec)
      then show ?thesis
        by (rule insert_if_absent_keeps_keys)
    next
      assume "m \<in> set blk"
      with blk_cands have mc: "m \<in> set cands"
        by (rule subsetD)
      with skills have sm: "skill_id m = sid"
        by simp
      show ?thesis
      proof (cases "has_key mp (question_id x)")
        case True
        then show ?thesis
          by (rule insert_if_absent_keeps_keys)
      next
        case False
        from mc other have "\<exists>m \<in> set cands. skill_difficulty m \<noteq> d"
          by (rule bexI [rotated])
        with all_in have "\<forall>x \<in> set ?exact. \<not> has_key mp (question_id x) \<longrightarrow> x \<in> set (take q cands)"
          by (rule mp)
        moreover from x have "x \<in> set ?exact"
          by (simp only: sm)
        ultimately have "\<not> has_key mp (question_id x) \<longrightarrow> x \<in> set (take q cands)"
          by (rule bspec)
        from this False have "x \<in> set (take q cands)"
          by (rule mp)
        then show ?thesis
          by (rule insert_if_absent_has_keys)
      qed
    qed
  qed
  from first covered show ?thesis
    by (simp only: step fst_conv)
qed

lemma difficulty_fold_exact_first:
  assumes "exact_first d (map snd mp)"
    and "\<forall>m \<in> set (map snd mp). skill_difficulty m \<noteq> d \<longrightarrow>
        (\<forall>x \<in> set (fetch db (Query (skill_id m) (EqualTo d) Unordered) (q * 2)).
           has_key mp (question_id x))"
  shows "exact_first d (map snd (fst (foldl (difficulty_step db q d) (mp, rds) sids)))"
  using assms
proof (induction sids arbitrary: mp rds)
  case Nil
  then show ?case by simp
next
  case (Cons sid sids)
  obtain mp' rds' where step: "difficulty_step db q d (mp, rds) sid = (mp', rds')"
    by (cases "difficulty_step db q d (mp, rds) sid")
  note inv = difficulty_step_exact_first [OF Cons.prems, of rds sid, unfolded step fst_conv]
  from inv have "exact_first d (map snd mp')"
    by (rule conjunct1)
  moreover from inv have "\<forall>m \<in> set (map snd mp'). skill_difficulty m \<noteq> d \<longrightarrow>
        (\<forall>x \<in> set (fetch db (Query (skill_id m) (EqualTo d) Unordered) (q * 2)).
           has_key mp' (question_id x))"
    by (rule conjunct2)
  ultimately have "exact_first d (map snd (fst (foldl (difficulty_step db q d) (mp', rds') sids)))"
    by (rule Cons.IH)
  then show ?case
    by (simp only: foldl.simps step)
qed

subsection \<open>One skill and the loop of the selector without ranking\<close>



lemma valid_quota:
  assumes "skill_ids \<noteq> []"
  shows "question_count_per_skill n (length skill_ids) = Inr (nat \<lceil>real n / real (length skill_ids)\<rceil>)"
  using assms by (simp add: question_count_per_skill_def divide_def)

lemma difficulty_returns:
  assumes "skill_ids \<noteq> []" and "length skill_ids \<le> 20"
  shows "get_question_skill_links_based_on_difficulty_equidistributed_by_skill db n skill_ids d =
     (Inr (map snd (fst (foldl (difficulty_step db (nat \<lceil>real n / real (length skill_ids)\<rceil>) d)
                          ([], []) skill_ids))),
      snd (foldl (difficulty_step db (nat \<lceil>real n / real (length skill_ids)\<rceil>) d) ([], []) skill_ids))"
  using assms
  by (simp add: get_question_skill_links_based_on_difficulty_equidistributed_by_skill_def
      MAX_NUMBER_OF_SKILL_IDS_def valid_quota Let_def)


subsection \<open>The selectors on the example stores\<close>

lemma link_of_simps [simp]:
  "question_id (link_of q s d) = q" "skill_id (link_of q s d) = s"
  "skill_difficulty (link_of q s d) = d" "model_id (link_of q s d) = get_model_id q s"
  by (simp_all add: link_of_def)

lemma link_of_eq [simp]: "link_of q s d = link_of q' s' d' \<longleftrightarrow> q = q' \<and> s = s' \<and> d = d'"
  by (auto simp: link_of_def)

lemma quota_2_of_2: "question_count_per_skill 2 (length [s, t]) = Inr 1"
proof -
  have l: "length [s, t] = 2" by simp
  show ?thesis unfolding l by (simp add: question_count_per_skill_pos)
qed

lemma quota_4_of_2: "question_count_per_skill 4 (length [s, t]) = Inr 2"
proof -
  have l: "length [s, t] = 2" by simp
  show ?thesis unfolding l by (simp add: question_count_per_skill_pos)
qed

lemma two_ids_allowed: "\<not> length [s, t] > MAX_NUMBER_OF_SKILL_IDS"
  by (simp add: MAX_NUMBER_OF_SKILL_IDS_def)

lemma difference_key_link_of:
  "difference_key d (link_of qid sid x) = \<bar>round_to_double (x - d)\<bar>"
  by (simp add: difference_key_def)

lemmas step_eval = Let_def remove_while_iterating_unfold fetch.simps has_key_def
  difference_key_link_of rd_zero rd_quarter rd_eighth rd_three_eighths

lemma a_e1: "equidistributed_step store_a 2 ([], [], []) ''s1'' =
   ([link_of ''q1'' ''s1'' (1/2), link_of ''q2'' ''s1'' (1/2)], [''q1'', ''q2''],
    [(Query ''s1'' AnyDifficulty Unordered, 4)])"
  by (simp add: equidistributed_step_def store_a_def step_eval)

lemma a_e2: "equidistributed_step store_a 2
   ([link_of ''q1'' ''s1'' (1/2), link_of ''q2'' ''s1'' (1/2)], [''q1'', ''q2''],
    [(Query ''s1'' AnyDifficulty Unordered, 4)]) ''s2'' =
   ([link_of ''q1'' ''s1'' (1/2), link_of ''q2'' ''s1'' (1/2),
     link_of ''q2'' ''s2'' (1/2), link_of ''q3'' ''s2'' (1/2)], [''q1'', ''q2'', ''q2'', ''q3''],
    [(Query ''s1'' AnyDifficulty Unordered, 4), (Query ''s2'' AnyDifficulty Unordered, 4)])"
  by (simp add: equidistributed_step_def store_a_def step_eval)

lemma a_equi: "get_question_skill_links_equidistributed_by_skill store_a 4 [''s1'', ''s2''] =
  (Inr [link_of ''q1'' ''s1'' (1/2), link_of ''q2'' ''s1'' (1/2),
        link_of ''q2'' ''s2'' (1/2), link_of ''q3'' ''s2'' (1/2)],
   [(Query ''s1'' AnyDifficulty Unordered, 4), (Query ''s2'' AnyDifficulty Unordered, 4)])"
  unfolding get_question_skill_links_equidistributed_by_skill_def
  by (simp only: two_ids_allowed quota_4_of_2 a_e1 a_e2 if_False sum.case Let_def foldl.simps
      fst_conv snd_conv)

lemma a_d1: "difficulty_step store_a 2 (1/2) ([], []) ''s1'' =
   ([(''q1'', link_of ''q1'' ''s1'' (1/2)), (''q2'', link_of ''q2'' ''s1'' (1/2))],
    [(Query ''s1'' (EqualTo (1/2)) Unordered, 4)])"
  by (simp add: difficulty_step_def store_a_def step_eval)

lemma a_d2: "difficulty_step store_a 2 (1/2)
   ([(''q1'', link_of ''q1'' ''s1'' (1/2)), (''q2'', link_of ''q2'' ''s1'' (1/2))],
    [(Query ''s1'' (EqualTo (1/2)) Unordered, 4)]) ''s2'' =
   ([(''q1'', link_of ''q1'' ''s1'' (1/2)), (''q2'', link_of ''q2'' ''s1'' (1/2)),
     (''q3'', link_of ''q3'' ''s2'' (1/2))],
    [(Query ''s1'' (EqualTo (1/2)) Unordered, 4), (Query ''s2'' (EqualTo (1/2)) Unordered, 4)])"
  by (simp add: difficulty_step_def store_a_def step_eval)

lemma a_diff: "get_question_skill_links_based_on_difficulty_equidistributed_by_skill
    store_a 4 [''s1'', ''s2''] (1/2) =
  (Inr [link_of ''q1'' ''s1'' (1/2), link_of ''q2'' ''s1'' (1/2), link_of ''q3'' ''s2'' (1/2)],
   [(Query ''s1'' (EqualTo (1/2)) Unordered, 4), (Query ''s2'' (EqualTo (1/2)) Unordered, 4)])"
  unfolding get_question_skill_links_based_on_difficulty_equidistributed_by_skill_def
  by (simp only: two_ids_allowed quota_4_of_2 a_d1 a_d2 if_False sum.case Let_def foldl.simps
      fst_conv snd_conv list.map)

lemma b_e1: "equidistributed_step store_b 1 ([], [], []) ''s1'' =
   ([link_of ''q1'' ''s1'' (1/2)], [''q1'', ''q2''], [(Query ''s1'' AnyDifficulty Unordered, 2)])"
  by (simp add: equidistributed_step_def store_b_def step_eval)

lemma b_e2: "equidistributed_step store_b 1
   ([link_of ''q1'' ''s1'' (1/2)], [''q1'', ''q2''], [(Query ''s1'' AnyDifficulty Unordered, 2)]) ''s2'' =
   ([link_of ''q1'' ''s1'' (1/2)], [''q1'', ''q2''],
    [(Query ''s1'' AnyDifficulty Unordered, 2), (Query ''s2'' AnyDifficulty Unordered, 2)])"
  by (simp add: equidistributed_step_def store_b_def step_eval)

lemma b_equi: "get_question_skill_links_equidistributed_by_skill store_b 2 [''s1'', ''s2''] =
  (Inr [link_of ''q1'' ''s1'' (1/2)],
   [(Query ''s1'' AnyDifficulty Unordered, 2), (Query ''s2'' AnyDifficulty Unordered, 2)])"
  unfolding get_question_skill_links_equidistributed_by_skill_def
  by (simp only: two_ids_allowed quota_2_of_2 b_e1 b_e2 if_False sum.case Let_def foldl.simps
      fst_conv snd_conv)

lemma c_d1: "difficulty_step store_c 1 (1/2) ([], []) ''s1'' =
   ([(''q1'', link_of ''q1'' ''s1'' (1/4))],
    [(Query ''s1'' (EqualTo (1/2)) Unordered, 2), (Query ''s1'' (LessThan (1/2)) Descending, 1)])"
  by (simp add: difficulty_step_def store_c_def step_eval)

lemma c_d2: "difficulty_step store_c 1 (1/2)
   ([(''q1'', link_of ''q1'' ''s1'' (1/4))],
    [(Query ''s1'' (EqualTo (1/2)) Unordered, 2), (Query ''s1'' (LessThan (1/2)) Descending, 1)]) ''s1'' =
   ([(''q1'', link_of ''q1'' ''s1'' (1/4)), (''q2'', link_of ''q2'' ''s1'' (5/8))],
    [(Query ''s1'' (EqualTo (1/2)) Unordered, 2), (Query ''s1'' (LessThan (1/2)) Descending, 1),
     (Query ''s1'' (EqualTo (1/2)) Unordered, 2), (Query ''s1'' (LessThan (1/2)) Descending, 1),
     (Query ''s1'' (GreaterThan (1/2)) Ascending, 1)])"
  by (simp add: difficulty_step_def store_c_def step_eval)

lemma c_diff: "get_question_skill_links_based_on_difficulty_equidistributed_by_skill
    store_c 2 [''s1'', ''s1''] (1/2) =
  (Inr [link_of ''q1'' ''s1'' (1/4), link_of ''q2'' ''s1'' (5/8)],
    [(Query ''s1'' (EqualTo (1/2)) Unordered, 2), (Query ''s1'' (LessThan (1/2)) Descending, 1),
     (Query ''s1'' (EqualTo (1/2)) Unordered, 2), (Query ''s1'' (LessThan (1/2)) Descending, 1),
     (Query ''s1'' (GreaterThan (1/2)) Ascending, 1)])"
  unfolding get_question_skill_links_based_on_difficulty_equidistributed_by_skill_def
  by (simp only: two_ids_allowed quota_2_of_2 c_d1 c_d2 if_False sum.case Let_def foldl.simps
      fst_conv snd_conv list.map)

lemma d_d1: "difficulty_step store_d 2 (1/2) ([], []) ''s1'' =
   ([(''q1'', link_of ''q1'' ''s1'' (1/2)), (''q2'', link_of ''q2'' ''s1'' (1/4))],
    [(Query ''s1'' (EqualTo (1/2)) Unordered, 4), (Query ''s1'' (LessThan (1/2)) Descending, 2)])"
  by (simp add: difficulty_step_def store_d_def step_eval)

lemma d_d2: "difficulty_step store_d 2 (1/2)
   ([(''q1'', link_of ''q1'' ''s1'' (1/2)), (''q2'', link_of ''q2'' ''s1'' (1/4))],
    [(Query ''s1'' (EqualTo (1/2)) Unordered, 4), (Query ''s1'' (LessThan (1/2)) Descending, 2)]) ''s2'' =
   ([(''q1'', link_of ''q1'' ''s1'' (1/2)), (''q2'', link_of ''q2'' ''s1'' (1/4)),
     (''q5'', link_of ''q5'' ''s2'' (1/2)), (''q4'', link_of ''q4'' ''s2'' (1/8))],
    [(Query ''s1'' (EqualTo (1/2)) Unordered, 4), (Query ''s1'' (LessThan (1/2)) Descending, 2),
     (Query ''s2'' (EqualTo (1/2)) Unordered, 4), (Query ''s2'' (LessThan (1/2)) Descending, 2)])"
  by (simp add: difficulty_step_def store_d_def step_eval)

lemma d_diff: "get_question_skill_links_based_on_difficulty_equidistributed_by_skill
    store_d 4 [''s1'', ''s2''] (1/2) =
  (Inr [link_of ''q1'' ''s1'' (1/2), link_of ''q2'' ''s1'' (1/4),
        link_of ''q5'' ''s2'' (1/2), link_of ''q4'' ''s2'' (1/8)],
    [(Query ''s1'' (EqualTo (1/2)) Unordered, 4), (Query ''s1'' (LessThan (1/2)) Descending, 2),
     (Query ''s2'' (EqualTo (1/2)) Unordered, 4), (Query ''s2'' (LessThan (1/2)) Descending, 2)])"
  unfolding get_question_skill_links_based_on_difficulty_equidistributed_by_skill_def
  by (simp only: two_ids_allowed quota_4_of_2 d_d1 d_d2 if_False sum.case Let_def foldl.simps
      fst_conv snd_conv list.map)

lemma rd_below_v33: "round_to_double (- (12610078956637389 / 36028797018963968))
   = - (3152519739159347 / 9007199254740992)"
  by (subst round_to_double_below_two [where n = 2]) (simp_all add: round_half_even_def)

lemma rd_above_v33: "round_to_double (3152519739159347 / 9007199254740992)
   = 3152519739159347 / 9007199254740992"
  by (subst round_to_double_below_two [where n = 2]) (simp_all add: round_half_even_def)

lemma quota_2_of_1: "question_count_per_skill 2 (length [s]) = Inr 2"
proof -
  have l: "length [s] = 1" by simp
  show ?thesis unfolding l by (simp add: question_count_per_skill_pos)
qed

lemma one_id_allowed: "\<not> length [s] > MAX_NUMBER_OF_SKILL_IDS"
  by (simp add: MAX_NUMBER_OF_SKILL_IDS_def)

lemma e_d1: "difficulty_step store_e 2 (1/2) ([], []) ''s1'' =
   ([(''q1'', link_of ''q1'' ''s1'' (5404319552844595 / 36028797018963968)),
     (''q2'', link_of ''q2'' ''s1'' (7656119366529843 / 9007199254740992))],
    [(Query ''s1'' (EqualTo (1/2)) Unordered, 4), (Query ''s1'' (LessThan (1/2)) Descending, 2),
     (Query ''s1'' (GreaterThan (1/2)) Ascending, 2)])"
  by (simp add: difficulty_step_def store_e_def step_eval rd_below_v33 rd_above_v33)

lemma e_diff: "get_question_skill_links_based_on_difficulty_equidistributed_by_skill
    store_e 2 [''s1''] (1/2) =
  (Inr [link_of ''q1'' ''s1'' (5404319552844595 / 36028797018963968),
        link_of ''q2'' ''s1'' (7656119366529843 / 9007199254740992)],
    [(Query ''s1'' (EqualTo (1/2)) Unordered, 4), (Query ''s1'' (LessThan (1/2)) Descending, 2),
     (Query ''s1'' (GreaterThan (1/2)) Ascending, 2)])"
  unfolding get_question_skill_links_based_on_difficulty_equidistributed_by_skill_def
  by (simp only: one_id_allowed quota_2_of_1 e_d1 if_False sum.case Let_def foldl.simps
      fst_conv snd_conv list.map)

subsection \<open>Valid input: the result as one block per skill id\<close>

lemma difficulty_valid_blocks:
  assumes "skill_ids \<noteq> []" and "length skill_ids \<le> 20"
  shows "\<exists>out rds blocks.
      get_question_skill_links_based_on_difficulty_equidistributed_by_skill db n skill_ids d
        = (Inr out, rds)
      \<and> out = concat blocks
      \<and> list_all2 (\<lambda>sid blk. length blk \<le> nat \<lceil>real n / real (length skill_ids)\<rceil>
                      \<and> (\<forall>m \<in> set blk. m \<in> set db \<and> skill_id m = sid)
                      \<and> sorted (map (difference_key d) blk)) skill_ids blocks"
proof -
  let ?q = "nat \<lceil>real n / real (length skill_ids)\<rceil>"
  from difficulty_fold_blocks [of db ?q d "[]" "[]" skill_ids] obtain blocks rds' where
    run: "foldl (difficulty_step db ?q d) ([], []) skill_ids
            = ([] @ map (\<lambda>m. (question_id m, m)) (concat blocks), rds')"
    and all: "list_all2 (\<lambda>sid blk. length blk \<le> ?q \<and> (\<forall>m \<in> set blk. m \<in> set db \<and> skill_id m = sid)
                      \<and> sorted (map (difference_key d) blk)) skill_ids blocks"
    by (elim exE conjE)
  from run have "get_question_skill_links_based_on_difficulty_equidistributed_by_skill db n skill_ids d
        = (Inr (concat blocks), rds')"
    by (simp add: difficulty_returns [OF assms] comp_def)
  with all show ?thesis
    by (intro exI [of _ "concat blocks"] exI [of _ rds'] exI [of _ blocks] conjI) simp_all
qed


subsection \<open>The tiers of the selector ranked by difficulty\<close>

lemma sorted_map_shift:
  "sorted (map f xs) \<Longrightarrow> \<forall>x \<in> set xs. g x = c + f x \<Longrightarrow> sorted (map g xs)"
  for f g :: "'a \<Rightarrow> real"
  by (induction xs) auto

lemma fetch_easier_nearest_first:
  "(\<forall>m \<in> set (fetch db (Query sid (LessThan d) Descending) n). skill_difficulty m < d)
   \<and> sorted (map (distance_to d) (fetch db (Query sid (LessThan d) Descending) n))"
proof -
  let ?xs = "fetch db (Query sid (LessThan d) Descending) n"
  have below: "\<forall>m \<in> set ?xs. skill_difficulty m < d"
    using fetch_set [of _ db sid "LessThan d" Descending n] by auto
  have "sorted (take n (map (\<lambda>m. - skill_difficulty m)
          (sort_key (\<lambda>m. - skill_difficulty m)
            (filter (\<lambda>m. skill_id m = sid \<and> matches (LessThan d) (skill_difficulty m)) db))))"
    by (rule sorted_wrt_take) (rule sorted_sort_key)
  then have "sorted (map (\<lambda>m. - skill_difficulty m) ?xs)"
    by (simp only: fetch.simps order_results.simps take_map)
  moreover from below have "\<forall>m \<in> set ?xs. distance_to d m = d + (- skill_difficulty m)"
    by (auto simp: distance_to_def)
  ultimately have "sorted (map (distance_to d) ?xs)"
    by (rule sorted_map_shift)
  with below show ?thesis
    by (intro conjI)
qed

lemma fetch_harder_nearest_first:
  "(\<forall>m \<in> set (fetch db (Query sid (GreaterThan d) Ascending) n). skill_difficulty m > d)
   \<and> sorted (map (distance_to d) (fetch db (Query sid (GreaterThan d) Ascending) n))"
proof -
  let ?xs = "fetch db (Query sid (GreaterThan d) Ascending) n"
  have above: "\<forall>m \<in> set ?xs. skill_difficulty m > d"
    using fetch_set [of _ db sid "GreaterThan d" Ascending n] by auto
  have "sorted (take n (map skill_difficulty
          (sort_key skill_difficulty
            (filter (\<lambda>m. skill_id m = sid \<and> matches (GreaterThan d) (skill_difficulty m)) db))))"
    by (rule sorted_wrt_take) (rule sorted_sort_key)
  then have "sorted (map skill_difficulty ?xs)"
    by (simp only: fetch.simps order_results.simps take_map)
  moreover from above have "\<forall>m \<in> set ?xs. distance_to d m = (- d) + skill_difficulty m"
    by (auto simp: distance_to_def)
  ultimately have "sorted (map (distance_to d) ?xs)"
    by (rule sorted_map_shift)
  with above show ?thesis
    by (intro conjI)
qed

lemma difficulty_step_reads:
  "snd (difficulty_step db q d (mp, rds) sid) =
     rds @ [(Query sid (EqualTo d) Unordered, q * 2)]
     @ (if length (remove_while_iterating (\<lambda>m. has_key mp (question_id m)) 0
                     (fetch db (Query sid (EqualTo d) Unordered) (q * 2))) < q
        then [(Query sid (LessThan d) Descending, q)]
          @ (if length (remove_while_iterating (\<lambda>m. has_key mp (question_id m)) 0
                          (fetch db (Query sid (EqualTo d) Unordered) (q * 2))
                        @ remove_while_iterating (\<lambda>m. has_key mp (question_id m)) 0
                          (fetch db (Query sid (LessThan d) Descending) q)) < q
             then [(Query sid (GreaterThan d) Ascending, q)] else [])
        else [])"
  unfolding difficulty_step_def Let_def by simp

subsection \<open>Model ids\<close>

lemma get_None_iff: "get db entity_id = None \<longleftrightarrow> (\<forall>m \<in> set db. model_id m \<noteq> entity_id)"
  by (auto simp: get_def find_None_iff)

lemma split_at_separator:
  assumes "x \<notin> set xs" and "x \<notin> set xs'" and "xs @ x # ys = xs' @ x # ys'"
  shows "xs = xs' \<and> ys = ys'"
  using assms
proof (induction xs arbitrary: xs')
  case Nil
  then show ?case
    by (cases xs') auto
next
  case (Cons a xs)
  then show ?case
    by (cases xs') auto
qed

lemma get_model_id_inject:
  assumes "CHR '':'' \<notin> set qid" and "CHR '':'' \<notin> set qid'"
  shows "get_model_id qid sid = get_model_id qid' sid' \<longleftrightarrow> qid = qid' \<and> sid = sid'"
  using assms split_at_separator [of "CHR '':''" qid qid' sid sid']
  by (auto simp: get_model_id_def)

lemma linked_iff_pair_stored:
  assumes "\<forall>m \<in> set db. model_id m = get_model_id (question_id m) (skill_id m)"
    and "\<forall>m \<in> set db. CHR '':'' \<notin> set (question_id m)"
    and "CHR '':'' \<notin> set qid"
  shows "(\<exists>m \<in> set db. model_id m = get_model_id qid sid)
     \<longleftrightarrow> (\<exists>m \<in> set db. question_id m = qid \<and> skill_id m = sid)"
  using assms by (metis get_model_id_inject)

section \<open>Argument validation\<close>

text \<open>
  C6. With more than 20 skill ids both selectors raise the invalid-argument error at
  once, whatever the count and the requested difficulty: the log of store reads is
  empty.
\<close>

theorem too_many_skill_ids_rejected:
  assumes "length skill_ids > 20"
  shows "get_question_skill_links_based_on_difficulty_equidistributed_by_skill
           db total_question_count skill_ids difficulty_requested = (Inl InvalidArgument, [])
       \<and> get_question_skill_links_equidistributed_by_skill
           db total_question_count skill_ids = (Inl InvalidArgument, [])"
  using assms
  by (simp add: get_question_skill_links_based_on_difficulty_equidistributed_by_skill_def
      get_question_skill_links_equidistributed_by_skill_def MAX_NUMBER_OF_SKILL_IDS_def)

theorem too_many_skill_ids_rejected_witness:
  "length [''s01'', ''s02'', ''s03'', ''s04'', ''s05'', ''s06'', ''s07'', ''s08'', ''s09'',
           ''s10'', ''s11'', ''s12'', ''s13'', ''s14'', ''s15'', ''s16'', ''s17'', ''s18'',
           ''s19'', ''s20'', ''s21''] > 20
   \<and> get_question_skill_links_based_on_difficulty_equidistributed_by_skill [] 5
        [''s01'', ''s02'', ''s03'', ''s04'', ''s05'', ''s06'', ''s07'', ''s08'', ''s09'',
         ''s10'', ''s11'', ''s12'', ''s13'', ''s14'', ''s15'', ''s16'', ''s17'', ''s18'',
         ''s19'', ''s20'', ''s21''] (1 / 2) = (Inl InvalidArgument, [])
   \<and> get_question_skill_links_equidistributed_by_skill [] 5
        [''s01'', ''s02'', ''s03'', ''s04'', ''s05'', ''s06'', ''s07'', ''s08'', ''s09'',
         ''s10'', ''s11'', ''s12'', ''s13'', ''s14'', ''s15'', ''s16'', ''s17'', ''s18'',
         ''s19'', ''s20'', ''s21''] = (Inl InvalidArgument, [])"
proof -
  have many: "length [''s01'', ''s02'', ''s03'', ''s04'', ''s05'', ''s06'', ''s07'', ''s08'',
      ''s09'', ''s10'', ''s11'', ''s12'', ''s13'', ''s14'', ''s15'', ''s16'', ''s17'', ''s18'',
      ''s19'', ''s20'', ''s21''] > 20"
    by simp
  from many too_many_skill_ids_rejected [OF many, of "[]" 5 "1 / 2"] show ?thesis
    by (intro conjI) (simp_all only: simp_thms)
qed

text \<open>
  C9. An empty list of skill ids passes the check of the number of skill ids and fails
  in the division that computes the quota, for every count, before any store read.
\<close>

theorem empty_skill_ids_division_by_zero:
  "get_question_skill_links_based_on_difficulty_equidistributed_by_skill
     db total_question_count [] difficulty_requested = (Inl ZeroDivisionError, [])
   \<and> get_question_skill_links_equidistributed_by_skill
     db total_question_count [] = (Inl ZeroDivisionError, [])"
  by (simp add: get_question_skill_links_based_on_difficulty_equidistributed_by_skill_def
      get_question_skill_links_equidistributed_by_skill_def MAX_NUMBER_OF_SKILL_IDS_def
      question_count_per_skill_zero)

section \<open>Deduplication in the selector without ranking\<close>

text \<open>
  C1. The claim is that the result of
  \<open>get_question_skill_links_equidistributed_by_skill\<close> never holds two links with the
  same question id. On \<open>store_a\<close> with four questions requested for the skills
  \<open>s1\<close> and \<open>s2\<close> the quota is 2 and four links are fetched per skill. For \<open>s2\<close> the
  loop removes the link of \<open>q1\<close> at index 0, which moves the link of \<open>q2\<close> to index 0;
  the next iteration reads index 1, so the link of \<open>q2\<close> is never tested and stays.
  The result holds \<open>q2\<close> twice.
\<close>

theorem equidistributed_repeats_question_id:
  "fst (get_question_skill_links_equidistributed_by_skill store_a 4 [''s1'', ''s2'']) =
     Inr [link_of ''q1'' ''s1'' (1/2), link_of ''q2'' ''s1'' (1/2),
          link_of ''q2'' ''s2'' (1/2), link_of ''q3'' ''s2'' (1/2)]
   \<and> \<not> distinct (map question_id
          [link_of ''q1'' ''s1'' (1/2), link_of ''q2'' ''s1'' (1/2),
           link_of ''q2'' ''s2'' (1/2), link_of ''q3'' ''s2'' (1/2)])"
  by (simp add: a_equi)

text \<open>
  C2. The claim is that a candidate is discarded exactly when its question id was
  selected, within the quota, for an earlier skill. On \<open>store_b\<close> with two questions
  requested the quota is 1: for \<open>s1\<close> the links of \<open>q1\<close> and \<open>q2\<close> are fetched and only
  the link of \<open>q1\<close> is selected, yet \<open>existing_question_ids\<close> receives both ids. The
  only candidate of \<open>s2\<close>, the link of \<open>q2\<close>, is then discarded, and the result is the
  single link of \<open>q1\<close>.
\<close>

theorem equidistributed_discards_unselected_question:
  "fetch store_b (Query ''s2'' AnyDifficulty Unordered) 2 = [link_of ''q2'' ''s2'' (1/2)]
   \<and> fst (equidistributed_step store_b 1 ([], [], []) ''s1'') = [link_of ''q1'' ''s1'' (1/2)]
   \<and> fst (get_question_skill_links_equidistributed_by_skill store_b 2 [''s1'', ''s2'']) =
     Inr [link_of ''q1'' ''s1'' (1/2)]"
proof (intro conjI)
  show "fetch store_b (Query ''s2'' AnyDifficulty Unordered) 2 = [link_of ''q2'' ''s2'' (1/2)]"
    by (simp add: store_b_def fetch.simps)
  show "fst (equidistributed_step store_b 1 ([], [], []) ''s1'') = [link_of ''q1'' ''s1'' (1/2)]"
    by (simp only: b_e1 fst_conv)
  show "fst (get_question_skill_links_equidistributed_by_skill store_b 2 [''s1'', ''s2'']) =
     Inr [link_of ''q1'' ''s1'' (1/2)]"
    by (simp only: b_equi fst_conv)
qed

section \<open>Order and deduplication in the selector ranked by difficulty\<close>

text \<open>
  C3 (amended). For every non-empty list of at most 20 skill ids the selector returns a
  list that is the concatenation of one block per position of \<open>skill_ids\<close>, in the order
  of \<open>skill_ids\<close>: the block of a position holds the links first inserted into the
  mapping while the skill id at that position was processed. All links of a block belong
  to that skill id, and within a block the absolute difference from the requested
  difficulty as the code computes it on doubles, the key of its sort, does not decrease.
\<close>

theorem difficulty_result_order:
  assumes "skill_ids \<noteq> []" and "length skill_ids \<le> 20"
  shows "\<exists>out rds blocks.
      get_question_skill_links_based_on_difficulty_equidistributed_by_skill
        db total_question_count skill_ids difficulty_requested = (Inr out, rds)
      \<and> out = concat blocks
      \<and> list_all2 (\<lambda>sid blk. (\<forall>m \<in> set blk. skill_id m = sid)
                      \<and> sorted (map (difference_key difficulty_requested) blk)) skill_ids blocks"
proof -
  from difficulty_valid_blocks [OF assms, of db total_question_count difficulty_requested]
  obtain out rds blocks where
    res: "get_question_skill_links_based_on_difficulty_equidistributed_by_skill
        db total_question_count skill_ids difficulty_requested = (Inr out, rds)"
    and out: "out = concat blocks"
    and all: "list_all2 (\<lambda>sid blk.
          length blk \<le> nat \<lceil>real total_question_count / real (length skill_ids)\<rceil>
          \<and> (\<forall>m \<in> set blk. m \<in> set db \<and> skill_id m = sid)
          \<and> sorted (map (difference_key difficulty_requested) blk)) skill_ids blocks"
    by (elim exE conjE)
  from all have "list_all2 (\<lambda>sid blk. (\<forall>m \<in> set blk. skill_id m = sid)
                \<and> sorted (map (difference_key difficulty_requested) blk)) skill_ids blocks"
    by (rule list_all2_mono) simp
  with res out show ?thesis
    by (intro exI [of _ out] exI [of _ rds] exI [of _ blocks] conjI)
qed

theorem difficulty_result_order_witness:
  "[''s1'', ''s2''] \<noteq> [] \<and> length [''s1'', ''s2''] \<le> 20
   \<and> (\<exists>blocks.
        [link_of ''q1'' ''s1'' (1/2), link_of ''q2'' ''s1'' (1/4),
         link_of ''q5'' ''s2'' (1/2), link_of ''q4'' ''s2'' (1/8)] = concat blocks
      \<and> list_all2 (\<lambda>sid blk. (\<forall>m \<in> set blk. skill_id m = sid)
                      \<and> sorted (map (difference_key (1/2)) blk)) [''s1'', ''s2''] blocks)"
proof -
  have ne: "[''s1'', ''s2''] \<noteq> []" and le: "length [''s1'', ''s2''] \<le> 20"
    by simp_all
  from difficulty_result_order [OF ne le, of store_d 4 "1/2"] have
    "\<exists>blocks.
        [link_of ''q1'' ''s1'' (1/2), link_of ''q2'' ''s1'' (1/4),
         link_of ''q5'' ''s2'' (1/2), link_of ''q4'' ''s2'' (1/8)] = concat blocks
      \<and> list_all2 (\<lambda>sid blk. (\<forall>m \<in> set blk. skill_id m = sid)
                      \<and> sorted (map (difference_key (1/2)) blk)) [''s1'', ''s2''] blocks"
    unfolding d_diff by (elim exE conjE) (simp only: prod.inject sum.inject, blast)
  with ne le show ?thesis
    by (intro conjI)
qed

text \<open>
  With the exact absolute difference in place of the computed one the statement fails.
  On \<open>store_e\<close>, with two questions requested for the single skill \<open>s1\<close> at difficulty
  1/2, the link at 0.15 is fetched in the easier tier and the link at 0.85 in the harder
  tier. Both computed differences are the double 0.35, so the stable sort keeps the
  order of the tiers, although the link at 0.85 is nearer by 2 to the power of -55.
\<close>

theorem difficulty_exact_distance_counterexample:
  "fst (get_question_skill_links_based_on_difficulty_equidistributed_by_skill
          store_e 2 [''s1''] (1/2))
     = Inr [link_of ''q1'' ''s1'' (5404319552844595 / 36028797018963968),
            link_of ''q2'' ''s1'' (7656119366529843 / 9007199254740992)]
   \<and> distance_to (1/2) (link_of ''q2'' ''s1'' (7656119366529843 / 9007199254740992))
       < distance_to (1/2) (link_of ''q1'' ''s1'' (5404319552844595 / 36028797018963968))
   \<and> difference_key (1/2) (link_of ''q1'' ''s1'' (5404319552844595 / 36028797018963968))
       = difference_key (1/2) (link_of ''q2'' ''s1'' (7656119366529843 / 9007199254740992))"
proof (intro conjI)
  show "fst (get_question_skill_links_based_on_difficulty_equidistributed_by_skill
          store_e 2 [''s1''] (1/2))
     = Inr [link_of ''q1'' ''s1'' (5404319552844595 / 36028797018963968),
            link_of ''q2'' ''s1'' (7656119366529843 / 9007199254740992)]"
    by (simp only: e_diff fst_conv)
  show "distance_to (1/2) (link_of ''q2'' ''s1'' (7656119366529843 / 9007199254740992))
       < distance_to (1/2) (link_of ''q1'' ''s1'' (5404319552844595 / 36028797018963968))"
    by (simp add: distance_to_def)
  show "difference_key (1/2) (link_of ''q1'' ''s1'' (5404319552844595 / 36028797018963968))
       = difference_key (1/2) (link_of ''q2'' ''s1'' (7656119366529843 / 9007199254740992))"
    by (simp add: difference_key_link_of rd_below_v33 rd_above_v33)
qed

text \<open>
  C10. For every non-empty list of at most 20 skill ids the selector ranked by
  difficulty returns a list without two links of the same question id, whatever the
  removal loops of the three tiers leave in the candidates. On \<open>store_a\<close> the loop for
  \<open>s2\<close> leaves the link of \<open>q2\<close> among the candidates, and the final insertion into
  the mapping skips it.
\<close>

theorem difficulty_result_no_duplicate_question:
  assumes "skill_ids \<noteq> []" and "length skill_ids \<le> 20"
  shows "\<exists>out rds.
      get_question_skill_links_based_on_difficulty_equidistributed_by_skill
        db total_question_count skill_ids difficulty_requested = (Inr out, rds)
      \<and> distinct (map question_id out)"
proof -
  let ?q = "nat \<lceil>real total_question_count / real (length skill_ids)\<rceil>"
  let ?st = "foldl (difficulty_step db ?q difficulty_requested) ([], []) skill_ids"
  have "distinct (map fst ([] :: link_mapping))"
    and "\<forall>(k, m) \<in> set ([] :: link_mapping). k = question_id m"
    by simp_all
  from difficulty_fold_keys [OF this, of db ?q difficulty_requested "[]" skill_ids]
  have "distinct (map question_id (map snd (fst ?st)))"
    by (intro keyed_values_distinct) simp_all
  with difficulty_returns [OF assms, of db total_question_count difficulty_requested]
  show ?thesis
    by (intro exI [of _ "map snd (fst ?st)"] exI [of _ "snd ?st"] conjI)
qed

theorem difficulty_result_no_duplicate_question_witness:
  "[''s1'', ''s2''] \<noteq> [] \<and> length [''s1'', ''s2''] \<le> 20
   \<and> get_question_skill_links_based_on_difficulty_equidistributed_by_skill
        store_a 4 [''s1'', ''s2''] (1/2)
      = (Inr [link_of ''q1'' ''s1'' (1/2), link_of ''q2'' ''s1'' (1/2), link_of ''q3'' ''s2'' (1/2)],
         [(Query ''s1'' (EqualTo (1/2)) Unordered, 4), (Query ''s2'' (EqualTo (1/2)) Unordered, 4)])
   \<and> distinct (map question_id
        [link_of ''q1'' ''s1'' (1/2), link_of ''q2'' ''s1'' (1/2), link_of ''q3'' ''s2'' (1/2)])"
proof -
  have ne: "[''s1'', ''s2''] \<noteq> []" and le: "length [''s1'', ''s2''] \<le> 20"
    by simp_all
  from difficulty_result_no_duplicate_question [OF ne le, of store_a 4 "1/2"]
  have "distinct (map question_id
        [link_of ''q1'' ''s1'' (1/2), link_of ''q2'' ''s1'' (1/2), link_of ''q3'' ''s2'' (1/2)])"
    unfolding a_diff by (elim exE conjE) (simp only: prod.inject sum.inject)
  with ne le a_diff show ?thesis
    by (intro conjI)
qed

text \<open>
  C4 (amended). For every non-empty list of at most 20 skill ids: when no skill id
  occurs twice in the list, the links of the result that belong to one skill have
  non-decreasing absolute difference from the requested difficulty, as the code computes
  it on doubles; and, whether or not an id occurs twice, no link at another difficulty
  precedes a link of the same skill at exactly the requested difficulty.
\<close>

theorem difficulty_result_sorted_per_skill:
  assumes "skill_ids \<noteq> []" and "length skill_ids \<le> 20"
  shows "\<exists>out rds.
      get_question_skill_links_based_on_difficulty_equidistributed_by_skill
        db total_question_count skill_ids difficulty_requested = (Inr out, rds)
      \<and> (distinct skill_ids \<longrightarrow>
           (\<forall>sid. sorted (map (difference_key difficulty_requested) (links_of_skill sid out))))
      \<and> (\<forall>pre a mid b post.
             out = pre @ a # mid @ b # post \<and> skill_id a = skill_id b
               \<and> skill_difficulty b = difficulty_requested
             \<longrightarrow> skill_difficulty a = difficulty_requested)"
proof -
  let ?q = "nat \<lceil>real total_question_count / real (length skill_ids)\<rceil>"
  let ?st = "foldl (difficulty_step db ?q difficulty_requested) ([], []) skill_ids"
  from difficulty_valid_blocks [OF assms, of db total_question_count difficulty_requested]
  obtain out rds blocks where
    res: "get_question_skill_links_based_on_difficulty_equidistributed_by_skill
        db total_question_count skill_ids difficulty_requested = (Inr out, rds)"
    and out: "out = concat blocks"
    and all: "list_all2 (\<lambda>sid blk.
          length blk \<le> nat \<lceil>real total_question_count / real (length skill_ids)\<rceil>
          \<and> (\<forall>m \<in> set blk. m \<in> set db \<and> skill_id m = sid)
          \<and> sorted (map (difference_key difficulty_requested) blk)) skill_ids blocks"
    by (elim exE conjE)
  from all have all': "list_all2 (\<lambda>sid blk. (\<forall>m \<in> set blk. skill_id m = sid)
                \<and> sorted (map (difference_key difficulty_requested) blk)) skill_ids blocks"
    by (rule list_all2_mono) simp
  have srt: "sorted (map (difference_key difficulty_requested) (links_of_skill s out))"
    if "distinct skill_ids" for s
    unfolding links_of_skill_def out using all' that by (rule filter_blocks_sorted)
  from res have out_fold: "out = map snd (fst ?st)"
    by (simp add: difficulty_returns [OF assms])
  have "exact_first difficulty_requested (map snd ([] :: link_mapping))"
    and "\<forall>m \<in> set (map snd ([] :: link_mapping)). skill_difficulty m \<noteq> difficulty_requested \<longrightarrow>
        (\<forall>x \<in> set (fetch db (Query (skill_id m) (EqualTo difficulty_requested) Unordered) (?q * 2)).
           has_key [] (question_id x))"
    by simp_all
  then have "exact_first difficulty_requested (map snd (fst ?st))"
    by (rule difficulty_fold_exact_first)
  then have ef: "exact_first difficulty_requested out"
    by (simp only: out_fold)
  have exact: "skill_difficulty a = difficulty_requested"
    if "out = pre @ a # mid @ b # post" "skill_id a = skill_id b"
      "skill_difficulty b = difficulty_requested" for pre a mid b post
  proof -
    from ef that(1) have "exact_first difficulty_requested (pre @ a # mid @ b # post)"
      by simp
    then show ?thesis
      using that(2,3) by (rule exact_first_split)
  qed
  have "(distinct skill_ids \<longrightarrow>
           (\<forall>sid. sorted (map (difference_key difficulty_requested) (links_of_skill sid out))))
      \<and> (\<forall>pre a mid b post.
             out = pre @ a # mid @ b # post \<and> skill_id a = skill_id b
               \<and> skill_difficulty b = difficulty_requested
             \<longrightarrow> skill_difficulty a = difficulty_requested)"
  proof (intro conjI impI allI)
    fix sid
    assume "distinct skill_ids"
    then show "sorted (map (difference_key difficulty_requested) (links_of_skill sid out))"
      by (rule srt)
  next
    fix pre a mid b post
    assume "out = pre @ a # mid @ b # post \<and> skill_id a = skill_id b
               \<and> skill_difficulty b = difficulty_requested"
    then show "skill_difficulty a = difficulty_requested"
      by (elim conjE) (rule exact)
  qed
  with res show ?thesis
    by (intro exI [of _ out] exI [of _ rds] conjI) simp_all
qed

theorem difficulty_result_sorted_per_skill_witness:
  "[''s1'', ''s2''] \<noteq> [] \<and> length [''s1'', ''s2''] \<le> 20 \<and> distinct [''s1'', ''s2'']
   \<and> sorted (map (difference_key (1/2))
        (links_of_skill ''s2''
          [link_of ''q1'' ''s1'' (1/2), link_of ''q2'' ''s1'' (1/4),
           link_of ''q5'' ''s2'' (1/2), link_of ''q4'' ''s2'' (1/8)]))"
proof -
  have ne: "[''s1'', ''s2''] \<noteq> []" and le: "length [''s1'', ''s2''] \<le> 20"
    and dist: "distinct [''s1'', ''s2'']"
    by simp_all
  from difficulty_result_sorted_per_skill [OF ne le, of store_d 4 "1/2"] dist
  have "sorted (map (difference_key (1/2))
        (links_of_skill ''s2''
          [link_of ''q1'' ''s1'' (1/2), link_of ''q2'' ''s1'' (1/4),
           link_of ''q5'' ''s2'' (1/2), link_of ''q4'' ''s2'' (1/8)]))"
    unfolding d_diff by (elim exE conjE) (simp only: prod.inject sum.inject)
  with ne le dist show ?thesis
    by (intro conjI)
qed

text \<open>
  Without the restriction to lists without repetition the first part fails, for the
  exact and for the computed difference alike. On \<open>store_c\<close> with the skill id \<open>s1\<close>
  given twice the quota is 1. The first pass takes the nearest easier link, at distance
  1/4, and the quota is met. In the second pass that link is removed as already present,
  so the harder tier is fetched and yields a link at distance 1/8, which is inserted
  after the first.
\<close>

theorem difficulty_sorted_per_skill_counterexample:
  "fst (get_question_skill_links_based_on_difficulty_equidistributed_by_skill
          store_c 2 [''s1'', ''s1''] (1/2))
     = Inr [link_of ''q1'' ''s1'' (1/4), link_of ''q2'' ''s1'' (5/8)]
   \<and> \<not> sorted (map (distance_to (1/2))
          (links_of_skill ''s1'' [link_of ''q1'' ''s1'' (1/4), link_of ''q2'' ''s1'' (5/8)]))
   \<and> \<not> sorted (map (difference_key (1/2))
          (links_of_skill ''s1'' [link_of ''q1'' ''s1'' (1/4), link_of ''q2'' ''s1'' (5/8)]))"
proof (intro conjI)
  have links: "links_of_skill ''s1'' [link_of ''q1'' ''s1'' (1/4), link_of ''q2'' ''s1'' (5/8)]
            = [link_of ''q1'' ''s1'' (1/4), link_of ''q2'' ''s1'' (5/8)]"
    by (simp add: links_of_skill_def)
  show "fst (get_question_skill_links_based_on_difficulty_equidistributed_by_skill
          store_c 2 [''s1'', ''s1''] (1/2))
     = Inr [link_of ''q1'' ''s1'' (1/4), link_of ''q2'' ''s1'' (5/8)]"
    by (simp only: c_diff fst_conv)
  show "\<not> sorted (map (distance_to (1/2))
          (links_of_skill ''s1'' [link_of ''q1'' ''s1'' (1/4), link_of ''q2'' ''s1'' (5/8)]))"
  proof -
    have "distance_to (1/2) (link_of ''q1'' ''s1'' (1/4)) = 1/4"
      and "distance_to (1/2) (link_of ''q2'' ''s1'' (5/8)) = 1/8"
      by (simp_all add: distance_to_def)
    with links show ?thesis
      by simp
  qed
  show "\<not> sorted (map (difference_key (1/2))
          (links_of_skill ''s1'' [link_of ''q1'' ''s1'' (1/4), link_of ''q2'' ''s1'' (5/8)]))"
  proof -
    have "difference_key (1/2) (link_of ''q1'' ''s1'' (1/4)) = 1/4"
      and "difference_key (1/2) (link_of ''q2'' ''s1'' (5/8)) = 1/8"
      by (simp_all add: difference_key_link_of rd_quarter rd_eighth)
    with links show ?thesis
      by simp
  qed
qed

text \<open>
  C8. While one skill id is processed, the read of the easier tier (difficulty below
  the requested one, limit equal to the quota) is logged exactly when the list left by
  the removal loop on the links of equal difficulty is shorter than the quota, and the
  read of the harder tier exactly when, in addition, that list extended by the easier
  links left by the removal loop is still shorter than the quota. No read of either tier
  has another limit. When the easier tier is read, the fetched links of equal difficulty
  that are absent from the mapping number fewer than the quota. The links of both tiers
  lie strictly on their side of the requested difficulty and come nearest first.
\<close>

theorem easier_and_harder_fetch_conditions:
  "let seen = (\<lambda>m. has_key mapping (question_id m));
       equal_query = Query sid (EqualTo d) Unordered;
       easier_query = Query sid (LessThan d) Descending;
       harder_query = Query sid (GreaterThan d) Ascending;
       exact = remove_while_iterating seen 0 (fetch db equal_query (per_skill * 2));
       easier = remove_while_iterating seen 0 (fetch db easier_query per_skill);
       reads = drop (length rds) (snd (difficulty_step db per_skill d (mapping, rds) sid))
   in ((easier_query, per_skill) \<in> set reads \<longleftrightarrow> length exact < per_skill)
    \<and> ((harder_query, per_skill) \<in> set reads
          \<longleftrightarrow> length exact < per_skill \<and> length (exact @ easier) < per_skill)
    \<and> (\<forall>limit. (easier_query, limit) \<in> set reads \<or> (harder_query, limit) \<in> set reads
          \<longrightarrow> limit = per_skill)
    \<and> ((easier_query, per_skill) \<in> set reads
          \<longrightarrow> length (filter (\<lambda>m. \<not> seen m) (fetch db equal_query (per_skill * 2))) < per_skill)
    \<and> (\<forall>m \<in> set (fetch db easier_query per_skill). skill_difficulty m < d)
    \<and> sorted (map (distance_to d) (fetch db easier_query per_skill))
    \<and> (\<forall>m \<in> set (fetch db harder_query per_skill). d < skill_difficulty m)
    \<and> sorted (map (distance_to d) (fetch db harder_query per_skill))"
proof -
  let ?seen = "\<lambda>m. has_key mapping (question_id m)"
  let ?exact = "remove_while_iterating ?seen 0 (fetch db (Query sid (EqualTo d) Unordered) (per_skill * 2))"
  have "length (filter (\<lambda>m. \<not> ?seen m) ?exact) \<le> length ?exact"
    by (rule length_filter_le)
  then have unseen: "length (filter (\<lambda>m. \<not> ?seen m)
                        (fetch db (Query sid (EqualTo d) Unordered) (per_skill * 2)))
                     \<le> length ?exact"
    by (simp only: remove_while_iterating_unseen)
  show ?thesis
    unfolding Let_def difficulty_step_reads
    using unseen fetch_easier_nearest_first [of db sid d per_skill]
      fetch_harder_nearest_first [of db sid d per_skill]
    by auto
qed

theorem easier_and_harder_fetch_conditions_witness:
  "length (remove_while_iterating
            (\<lambda>m. has_key [(''q1'', link_of ''q1'' ''s1'' (1/2)), (''q2'', link_of ''q2'' ''s1'' (1/4))]
                    (question_id m)) 0
            (fetch store_d (Query ''s2'' (EqualTo (1/2)) Unordered) (2 * 2))) < 2
   \<and> (Query ''s2'' (LessThan (1/2)) Descending, 2)
       \<in> set (drop (length [(Query ''s1'' (EqualTo (1/2)) Unordered, 4),
                             (Query ''s1'' (LessThan (1/2)) Descending, 2 :: nat)])
            (snd (difficulty_step store_d 2 (1/2)
               ([(''q1'', link_of ''q1'' ''s1'' (1/2)), (''q2'', link_of ''q2'' ''s1'' (1/4))],
                [(Query ''s1'' (EqualTo (1/2)) Unordered, 4),
                 (Query ''s1'' (LessThan (1/2)) Descending, 2)]) ''s2'')))"
proof -
  have short: "length (remove_while_iterating
            (\<lambda>m. has_key [(''q1'', link_of ''q1'' ''s1'' (1/2)), (''q2'', link_of ''q2'' ''s1'' (1/4))]
                    (question_id m)) 0
            (fetch store_d (Query ''s2'' (EqualTo (1/2)) Unordered) (2 * 2))) < 2"
    by (simp add: store_d_def step_eval)
  note inst = easier_and_harder_fetch_conditions
    [of "[(''q1'', link_of ''q1'' ''s1'' (1/2)), (''q2'', link_of ''q2'' ''s1'' (1/4))]"
        "''s2''" "1/2" store_d 2
        "[(Query ''s1'' (EqualTo (1/2)) Unordered, 4), (Query ''s1'' (LessThan (1/2)) Descending, 2)]",
     unfolded Let_def]
  from inst short have "(Query ''s2'' (LessThan (1/2)) Descending, 2)
       \<in> set (drop (length [(Query ''s1'' (EqualTo (1/2)) Unordered, 4),
                             (Query ''s1'' (LessThan (1/2)) Descending, 2 :: nat)])
            (snd (difficulty_step store_d 2 (1/2)
               ([(''q1'', link_of ''q1'' ''s1'' (1/2)), (''q2'', link_of ''q2'' ''s1'' (1/4))],
                [(Query ''s1'' (EqualTo (1/2)) Unordered, 4),
                 (Query ''s1'' (LessThan (1/2)) Descending, 2)]) ''s2'')))"
    by (elim conjE) (simp only:)
  with short show ?thesis
    by (intro conjI)
qed

section \<open>The quota\<close>



section \<open>Creating a link\<close>

text \<open>
  C5 (amended). \<open>create\<close> raises the conflict error exactly when the store holds a record
  under the id of the pair, \<open>question_id:skill_id\<close>; it leaves the store as it is; and
  when no such record exists it returns the instance with that id and the given fields.
  When every stored record has the id built from its own question id and skill id, and
  neither a stored question id nor the given one contains a colon, a record under that
  id is a record of the pair, so that \<open>create\<close> raises exactly when the pair is linked.
\<close>

theorem create_conflict_iff_linked:
  "(fst (create db qid sid difficulty) = Inl AlreadyLinked
      \<longleftrightarrow> (\<exists>m \<in> set db. model_id m = get_model_id qid sid))
   \<and> snd (create db qid sid difficulty) = db
   \<and> ((\<forall>m \<in> set db. model_id m \<noteq> get_model_id qid sid)
        \<longrightarrow> fst (create db qid sid difficulty)
              = Inr \<lparr>model_id = qid @ '':'' @ sid, question_id = qid, skill_id = sid,
                     skill_difficulty = difficulty\<rparr>)
   \<and> ((\<forall>m \<in> set db. model_id m = get_model_id (question_id m) (skill_id m))
        \<and> (\<forall>m \<in> set db. CHR '':'' \<notin> set (question_id m))
        \<and> CHR '':'' \<notin> set qid
        \<longrightarrow> (fst (create db qid sid difficulty) = Inl AlreadyLinked
              \<longleftrightarrow> (\<exists>m \<in> set db. question_id m = qid \<and> skill_id m = sid)))"
proof -
  have by_id: "fst (create db qid sid difficulty) = Inl AlreadyLinked
      \<longleftrightarrow> (\<exists>m \<in> set db. model_id m = get_model_id qid sid)"
    by (auto simp: create_def Let_def get_None_iff)
  have unchanged: "snd (create db qid sid difficulty) = db"
    by (simp add: create_def Let_def)
  have fresh: "(\<forall>m \<in> set db. model_id m \<noteq> get_model_id qid sid)
        \<longrightarrow> fst (create db qid sid difficulty)
              = Inr \<lparr>model_id = qid @ '':'' @ sid, question_id = qid, skill_id = sid,
                     skill_difficulty = difficulty\<rparr>"
    by (auto simp: create_def Let_def get_None_iff get_model_id_def)
  have by_pair: "(\<forall>m \<in> set db. model_id m = get_model_id (question_id m) (skill_id m))
        \<and> (\<forall>m \<in> set db. CHR '':'' \<notin> set (question_id m))
        \<and> CHR '':'' \<notin> set qid
        \<longrightarrow> (fst (create db qid sid difficulty) = Inl AlreadyLinked
              \<longleftrightarrow> (\<exists>m \<in> set db. question_id m = qid \<and> skill_id m = sid))"
  proof (intro impI, elim conjE)
    assume "\<forall>m \<in> set db. model_id m = get_model_id (question_id m) (skill_id m)"
      and "\<forall>m \<in> set db. CHR '':'' \<notin> set (question_id m)" and "CHR '':'' \<notin> set qid"
    then have "(\<exists>m \<in> set db. model_id m = get_model_id qid sid)
     \<longleftrightarrow> (\<exists>m \<in> set db. question_id m = qid \<and> skill_id m = sid)"
      by (rule linked_iff_pair_stored)
    with by_id show "fst (create db qid sid difficulty) = Inl AlreadyLinked
              \<longleftrightarrow> (\<exists>m \<in> set db. question_id m = qid \<and> skill_id m = sid)"
      by (rule trans)
  qed
  from by_id unchanged fresh by_pair show ?thesis
    by (intro conjI)
qed

theorem create_conflict_iff_linked_witness:
  "links_of_pair ''q1'' ''s1'' store_b = [link_of ''q1'' ''s1'' (1/2)]
   \<and> fst (create store_b ''q1'' ''s1'' (1/4)) = Inl AlreadyLinked
   \<and> snd (create store_b ''q1'' ''s1'' (1/4)) = store_b
   \<and> get store_b (get_model_id ''q1'' ''s2'') = None
   \<and> fst (create store_b ''q1'' ''s2'' (1/4))
       = Inr \<lparr>model_id = ''q1'' @ '':'' @ ''s2'', question_id = ''q1'', skill_id = ''s2'',
              skill_difficulty = 1/4\<rparr>"
proof -
  have stored: "links_of_pair ''q1'' ''s1'' store_b = [link_of ''q1'' ''s1'' (1/2)]"
    by (simp add: links_of_pair_def store_b_def)
  have absent: "get store_b (get_model_id ''q1'' ''s2'') = None"
    by (simp add: get_def store_b_def get_model_id_def)
  have ids: "\<forall>m \<in> set store_b. model_id m = get_model_id (question_id m) (skill_id m)"
    by (simp add: store_b_def)
  have no_colon: "\<forall>m \<in> set store_b. CHR '':'' \<notin> set (question_id m)"
    and no_colon': "CHR '':'' \<notin> set ''q1''"
    by (simp_all add: store_b_def)
  have linked: "\<exists>m \<in> set store_b. question_id m = ''q1'' \<and> skill_id m = ''s1''"
    by (simp add: store_b_def)
  from absent have fresh: "\<forall>m \<in> set store_b. model_id m \<noteq> get_model_id ''q1'' ''s2''"
    by (simp only: get_None_iff)
  note conflict = create_conflict_iff_linked [of store_b "''q1''" "''s1''" "1/4"]
  note success = create_conflict_iff_linked [of store_b "''q1''" "''s2''" "1/4"]
  from conflict have "(\<forall>m \<in> set store_b. model_id m = get_model_id (question_id m) (skill_id m))
        \<and> (\<forall>m \<in> set store_b. CHR '':'' \<notin> set (question_id m))
        \<and> CHR '':'' \<notin> set ''q1''
        \<longrightarrow> (fst (create store_b ''q1'' ''s1'' (1/4)) = Inl AlreadyLinked
              \<longleftrightarrow> (\<exists>m \<in> set store_b. question_id m = ''q1'' \<and> skill_id m = ''s1''))"
    by (elim conjE)
  with ids no_colon no_colon' have "fst (create store_b ''q1'' ''s1'' (1/4)) = Inl AlreadyLinked
              \<longleftrightarrow> (\<exists>m \<in> set store_b. question_id m = ''q1'' \<and> skill_id m = ''s1'')"
    by (simp only: simp_thms)
  with linked have "fst (create store_b ''q1'' ''s1'' (1/4)) = Inl AlreadyLinked"
    by (simp only: simp_thms)
  moreover from conflict have "snd (create store_b ''q1'' ''s1'' (1/4)) = store_b"
    by (elim conjE)
  moreover from success fresh have "fst (create store_b ''q1'' ''s2'' (1/4))
       = Inr \<lparr>model_id = ''q1'' @ '':'' @ ''s2'', question_id = ''q1'', skill_id = ''s2'',
              skill_difficulty = 1/4\<rparr>"
    by (elim conjE) (simp only:)
  ultimately show ?thesis
    using stored absent by (intro conjI)
qed

text \<open>
  For arbitrary ids the conflict is not tied to the pair. On \<open>store_f\<close>, which holds the
  link of question \<open>a\<close> to skill \<open>b:c\<close>, creating the link of question \<open>a:b\<close> to skill
  \<open>c\<close> builds the same id \<open>a:b:c\<close> and raises, although no link of that pair is stored.
\<close>

theorem create_conflict_without_pair_counterexample:
  "fst (create store_f ''a:b'' ''c'' (1/2)) = Inl AlreadyLinked
   \<and> links_of_pair ''a:b'' ''c'' store_f = []"
  by (simp add: create_def get_def get_model_id_def store_f_def links_of_pair_def)

end
